theory Spec2Isabelle
  imports Complex_Main "HOL-Library.Sublist" "HOL-Library.AList" "HOL-Library.Monad_Syntax"
begin

section \<open>Strings and path names\<close>

text \<open>
  Python strings are modelled as \<^typ>\<open>string\<close>. Case folding is the ASCII part of
  \<^verbatim>\<open>str.lower()\<close>: the twenty-six capital letters are mapped, every other character is
  left as it is.
\<close>

definition lower_char :: "char \<Rightarrow> char" where
  "lower_char c =
     (case map_of (zip ''ABCDEFGHIJKLMNOPQRSTUVWXYZ'' ''abcdefghijklmnopqrstuvwxyz'') c of
        Some d \<Rightarrow> d
      | None \<Rightarrow> c)"

definition lower :: "string \<Rightarrow> string" where
  "lower s = map lower_char s"

text \<open>\<^verbatim>\<open>pat in s\<close> on strings: \<open>pat\<close> occurs in \<open>s\<close> as a contiguous block.\<close>

fun contains :: "string \<Rightarrow> string \<Rightarrow> bool" where
  "contains pat [] = (pat = [])"
| "contains pat (c # cs) = (prefix pat (c # cs) \<or> contains pat cs)"

text \<open>\<^verbatim>\<open>s.endswith(e)\<close>.\<close>

definition endswith :: "string \<Rightarrow> string \<Rightarrow> bool" where
  "endswith s e = prefix (rev e) (rev s)"

text \<open>\<^verbatim>\<open>s.split(d)\<close> for a one-character separator.\<close>

fun split_on :: "char \<Rightarrow> string \<Rightarrow> string list" where
  "split_on d [] = [[]]"
| "split_on d (c # cs) =
     (if c = d then [] # split_on d cs
      else (case split_on d cs of
              [] \<Rightarrow> [[c]]
            | x # xs \<Rightarrow> (c # x) # xs))"

text \<open>\<^verbatim>\<open>sep.join(parts)\<close>.\<close>

fun join :: "string \<Rightarrow> string list \<Rightarrow> string" where
  "join sep [] = []"
| "join sep [p] = p"
| "join sep (p # q # ps) = p @ sep @ join sep (q # ps)"

text \<open>
  \<^verbatim>\<open>s.replace(old, new)\<close> for a non-empty \<open>old\<close>: occurrences are replaced from the left,
  without overlap.
\<close>

function py_replace :: "string \<Rightarrow> string \<Rightarrow> string \<Rightarrow> string" where
  "py_replace old new s =
     (if old = [] \<or> s = [] then s
      else if prefix old s then new @ py_replace old new (drop (length old) s)
      else hd s # py_replace old new (tl s))"
  by pat_completeness auto
termination
  by (relation "measure (\<lambda>(old, new, s). length s)") auto

text \<open>
  \<^verbatim>\<open>str.title()\<close> on ASCII: a letter that follows a letter is made small, every other
  letter is made capital.
\<close>

definition upper_char :: "char \<Rightarrow> char" where
  "upper_char c =
     (case map_of (zip ''abcdefghijklmnopqrstuvwxyz'' ''ABCDEFGHIJKLMNOPQRSTUVWXYZ'') c of
        Some d \<Rightarrow> d
      | None \<Rightarrow> c)"

definition is_letter :: "char \<Rightarrow> bool" where
  "is_letter c = (c \<in> set ''abcdefghijklmnopqrstuvwxyzABCDEFGHIJKLMNOPQRSTUVWXYZ'')"

fun title_loop :: "bool \<Rightarrow> string \<Rightarrow> string" where
  "title_loop after_letter [] = []"
| "title_loop after_letter (c # cs) =
     (if is_letter c
      then (if after_letter then lower_char c else upper_char c) # title_loop True cs
      else c # title_loop False cs)"

definition title :: "string \<Rightarrow> string" where
  "title s = title_loop False s"

text \<open>
  \<^verbatim>\<open>str.strip()\<close>: the characters Python counts as white space among the first 128 are
  tab, line feed, vertical tab, form feed, carriage return, the four separators
  \<open>0x1C\<close> to \<open>0x1F\<close>, and space.
\<close>

definition is_space :: "char \<Rightarrow> bool" where
  "is_space c = (c \<in> set [CHR 0x09, CHR 0x0A, CHR 0x0B, CHR 0x0C, CHR 0x0D,
                            CHR 0x1C, CHR 0x1D, CHR 0x1E, CHR 0x1F, CHR 0x20])"

definition strip :: "string \<Rightarrow> string" where
  "strip s = rev (dropWhile is_space (rev (dropWhile is_space s)))"

text \<open>
  \<^verbatim>\<open>pathlib\<close> on POSIX. \<^verbatim>\<open>Path(s).name\<close> is the last component of \<open>s\<close> after empty
  components and \<^verbatim>\<open>.\<close> components are dropped (the empty string when nothing is left).
  \<^verbatim>\<open>suffix\<close> and \<^verbatim>\<open>stem\<close> cut the name at its last dot, unless that dot is the first
  or the last character of the name.
\<close>

definition path_name :: "string \<Rightarrow> string" where
  "path_name s =
     (case filter (\<lambda>p. p \<noteq> [] \<and> p \<noteq> ''.'') (split_on (CHR ''/'') s) of
        [] \<Rightarrow> []
      | p # ps \<Rightarrow> last (p # ps))"

definition rfind_dot :: "string \<Rightarrow> nat option" where
  "rfind_dot s =
     (if CHR ''.'' \<in> set s
      then Some (length s - 1 - length (takeWhile (\<lambda>c. c \<noteq> CHR ''.'') (rev s)))
      else None)"

definition name_suffix :: "string \<Rightarrow> string" where
  "name_suffix nm =
     (case rfind_dot nm of
        None \<Rightarrow> []
      | Some i \<Rightarrow> if 0 < i \<and> i < length nm - 1 then drop i nm else [])"

definition name_stem :: "string \<Rightarrow> string" where
  "name_stem nm =
     (case rfind_dot nm of
        None \<Rightarrow> nm
      | Some i \<Rightarrow> if 0 < i \<and> i < length nm - 1 then take i nm else nm)"

definition path_suffix :: "string \<Rightarrow> string" where
  "path_suffix s = name_suffix (path_name s)"

definition path_stem :: "string \<Rightarrow> string" where
  "path_stem s = name_stem (path_name s)"

section \<open>The package on disk\<close>

text \<open>
  A package is a directory tree. Each directory lists its files and its subdirectories in
  the order \<^verbatim>\<open>os.walk\<close> reports them. A file path is kept as the pair the walk builds it
  from, the directory (its components below the package root) and the file name, so
  \<^verbatim>\<open>Path(file_path).name\<close> is the second component and
  \<^verbatim>\<open>os.path.relpath(file_path, self.base_path)\<close> joins both with slashes.
  \<^verbatim>\<open>os.path.getsize\<close> and reading a file as UTF-8 text can fail; \<open>None\<close> stands for the
  exception.
\<close>

datatype dtree = Dir (dir_files: "string list") (dir_subdirs: "(string \<times> dtree) list")

type_synonym path = "string list \<times> string"

record filesystem =
  tree :: dtree
  getsize :: "path \<Rightarrow> nat option"
  read_text :: "path \<Rightarrow> string option"

fun os_walk :: "string list \<Rightarrow> dtree \<Rightarrow> (string list \<times> string list) list" where
  "os_walk dirpath (Dir files dirs) =
     (dirpath, files) #
     concat (map (\<lambda>(d, t). os_walk (dirpath @ [d]) t)
                 (filter (\<lambda>(d, t). d \<noteq> ''__pycache__'') dirs))"

definition relpath :: "path \<Rightarrow> string" where
  "relpath p = join ''/'' (fst p @ [snd p])"

section \<open>File discovery\<close>

text \<open>
  \<^verbatim>\<open>all_files\<close> is a dict with nine fixed keys whose values are lists of paths. Its
  iteration order is used later, so it is an association list in insertion order.
\<close>

type_synonym all_files = "(string \<times> path list) list"

definition empty_all_files :: all_files where
  "empty_all_files =
     [(''main_iflow'', []), (''groovy_scripts'', []), (''xsd_files'', []),
      (''message_mappings'', []), (''wsdl_files'', []), (''properties_files'', []),
      (''xslt_files'', []), (''json_files'', []), (''manifest_files'', [])]"

definition bucket_append :: "string \<Rightarrow> path \<Rightarrow> all_files \<Rightarrow> all_files" where
  "bucket_append key p af = map (\<lambda>(k, ps). if k = key then (k, ps @ [p]) else (k, ps)) af"

definition bucket :: "all_files \<Rightarrow> string \<Rightarrow> path list" where
  "bucket af key = (case map_of af key of Some ps \<Rightarrow> ps | None \<Rightarrow> [])"

definition exclude_patterns :: "string list" where
  "exclude_patterns =
     [''_chunks.json'', ''.env'', ''.py'', ''.md'', ''.txt'', ''.pyc'', ''__pycache__'']"

definition excluded :: "string \<Rightarrow> bool" where
  "excluded file = list_ex (\<lambda>pattern. contains pattern file) exclude_patterns"

text \<open>The body of the loop over the files of one directory in \<^verbatim>\<open>_discover_all_files\<close>.\<close>

definition discover_file :: "filesystem \<Rightarrow> string list \<Rightarrow> all_files \<Rightarrow> string \<Rightarrow> all_files" where
  "discover_file fs dirpath af file =
     (if excluded file then af
      else
        let file_path = (dirpath, file);
            file_ext = lower (path_suffix file)
        in if file_ext = ''.iflw'' then bucket_append ''main_iflow'' file_path af
           else if file_ext \<in> set [''.groovy'', ''.gsh''] then
             bucket_append ''groovy_scripts'' file_path af
           else if file_ext = ''.xsd'' then bucket_append ''xsd_files'' file_path af
           else if file_ext = ''.mmap'' then bucket_append ''message_mappings'' file_path af
           else if file_ext = ''.wsdl'' then bucket_append ''wsdl_files'' file_path af
           else if file_ext \<in> set [''.properties'', ''.prop'', ''.propdef''] then
             bucket_append ''properties_files'' file_path af
           else if file_ext \<in> set [''.xsl'', ''.xslt''] then
             bucket_append ''xslt_files'' file_path af
           else if file_ext = ''.json'' then
             (case getsize fs file_path of
                Some n \<Rightarrow> if n \<le> 10000 then bucket_append ''json_files'' file_path af else af
              | None \<Rightarrow> af)
           else if snd file_path = ''MANIFEST.MF'' then
             bucket_append ''manifest_files'' file_path af
           else af)"

definition discover_dir :: "filesystem \<Rightarrow> all_files \<Rightarrow> string list \<times> string list \<Rightarrow> all_files" where
  "discover_dir fs af entry = foldl (discover_file fs (fst entry)) af (snd entry)"

definition discover_all_files :: "filesystem \<Rightarrow> all_files" where
  "discover_all_files fs = foldl (discover_dir fs) empty_all_files (os_walk [] (tree fs))"

definition discovered :: "all_files \<Rightarrow> path list" where
  "discovered af = concat (map snd af)"

definition find_main_iflow :: "all_files \<Rightarrow> path option" where
  "find_main_iflow af =
     (case bucket af ''main_iflow'' of [] \<Rightarrow> None | p # ps \<Rightarrow> Some p)"

section \<open>The parsed document\<close>

text \<open>
  The tree \<^verbatim>\<open>lxml\<close> builds. An element has its tag in the form \<^verbatim>\<open>{namespace}local\<close>, its
  attributes, the text before its first child (the empty string where lxml has
  \<^verbatim>\<open>None\<close>: the code never tells the two apart) and its child nodes. \<open>Special\<close> is a
  comment, a processing instruction or an entity: a node whose \<^verbatim>\<open>.tag\<close> is not a
  string, so every string method called on it raises.
\<close>

datatype xml =
    Elem (tag: string) (attrib: "(string \<times> string) list") (etext: string) (children: "xml list")
  | Special

text \<open>
  An element found in the document is kept with the chain of its ancestors, nearest
  first, which is what \<^verbatim>\<open>getparent()\<close> walks and what serialising it depends on.
\<close>

type_synonym node = "xml list \<times> xml"

fun is_element :: "xml \<Rightarrow> bool" where
  "is_element (Elem t a x cs) = True"
| "is_element Special = False"

fun get :: "xml \<Rightarrow> string \<Rightarrow> string option" where
  "get (Elem t a x cs) k = map_of a k"
| "get Special k = None"

text \<open>\<^verbatim>\<open>element.iter()\<close>: the node itself and everything below it, in document order.\<close>

fun iter :: "xml \<Rightarrow> xml list" where
  "iter (Elem t a x cs) = Elem t a x cs # concat (map iter cs)"
| "iter Special = [Special]"

fun iter_nodes :: "xml list \<Rightarrow> xml \<Rightarrow> node list" where
  "iter_nodes anc (Elem t a x cs) =
     (anc, Elem t a x cs) # concat (map (iter_nodes (Elem t a x cs # anc)) cs)"
| "iter_nodes anc Special = [(anc, Special)]"

definition doc_elements :: "xml \<Rightarrow> node list" where
  "doc_elements doc = filter (\<lambda>n. is_element (snd n)) (iter_nodes [] doc)"

text \<open>Truth value of a string that may be \<^verbatim>\<open>None\<close>.\<close>

fun truthy :: "string option \<Rightarrow> bool" where
  "truthy None = False"
| "truthy (Some s) = (s \<noteq> [])"

text \<open>\<^verbatim>\<open>tag.split('}')[-1] if '}' in tag else tag\<close>\<close>

definition local_name :: "string \<Rightarrow> string" where
  "local_name t = (if CHR ''}'' \<in> set t then last (split_on (CHR ''}'') t) else t)"

subsection \<open>The libraries\<close>

text \<open>
  What the chunker calls in the libraries it imports: the XML parser and serialiser of
  \<^verbatim>\<open>lxml\<close> (\<^verbatim>\<open>etree.tostring(e, encoding='unicode', pretty_print=True)\<close>, and the XPath
  string value of an element), \<^verbatim>\<open>hashlib.sha256(s.encode()).hexdigest()\<close>, the regular
  expression calls of \<^verbatim>\<open>_clean_process_xml\<close>, \<^verbatim>\<open>_format_xml_with_indentation\<close> and
  \<^verbatim>\<open>_resolve_component_script_files\<close> (one field for each pattern), the printed form of a
  dict, and the description generator, which asks a language model over the network and
  is \<open>None\<close> when \<^verbatim>\<open>self.embedding_generator\<close> is \<^verbatim>\<open>None\<close>. The field \<open>xpath\<close> is
  \<^verbatim>\<open>root.xpath(query, namespaces=namespaces)\<close> as the XPath engine of \<^verbatim>\<open>lxml\<close> answers it,
  \<open>None\<close> where it raises \<^verbatim>\<open>XPathEvalError\<close>; it is asked only for the query texts that
  are not evaluated below.
\<close>

record lib =
  etree_fromstring :: "string \<Rightarrow> xml option"
  etree_tostring :: "node \<Rightarrow> string"
  string_value :: "xml \<Rightarrow> string"
  sha256_hexdigest :: "string \<Rightarrow> string"
  sub_xmlns_decl :: "string \<Rightarrow> string"
  sub_tag_prefix :: "string \<Rightarrow> string"
  sub_newline_indent :: "string \<Rightarrow> string"
  sub_space_between_tags :: "string \<Rightarrow> string"
  split_tags :: "string \<Rightarrow> string list"
  findall_script_names :: "string \<Rightarrow> string list"
  dict_repr :: "(string \<times> string) list \<Rightarrow> string"
  embedding_generator :: "(string \<Rightarrow> string \<Rightarrow> string) option"
  xpath :: "(string \<times> string) list \<Rightarrow> string \<Rightarrow> xml \<Rightarrow> node list option"

subsection \<open>The XPath queries the chunker issues\<close>

text \<open>
  Both prefixes \<^verbatim>\<open>bpmn2\<close> and \<^verbatim>\<open>bpmn\<close> are bound to the same namespace in every
  \<^verbatim>\<open>namespaces\<close> dict of the chunker.
\<close>

definition ns_uri :: "string \<Rightarrow> string" where
  "ns_uri pfx =
     (if pfx = ''bpmn2'' then ''http://www.omg.org/spec/BPMN/20100524/MODEL''
      else if pfx = ''bpmn'' then ''http://www.omg.org/spec/BPMN/20100524/MODEL''
      else if pfx = ''bpmndi'' then ''http://www.omg.org/spec/BPMN/20100524/DI''
      else if pfx = ''ifl'' then ''http:///com.sap.ifl.model/Ifl.xsd''
      else [])"

definition qname :: "string \<Rightarrow> string \<Rightarrow> string" where
  "qname pfx nm = ''{'' @ ns_uri pfx @ ''}'' @ nm"

text \<open>\<^verbatim>\<open>root.xpath('//pfx:nm')\<close>: every element of the document with that name.\<close>

definition xpath_all :: "xml \<Rightarrow> string \<Rightarrow> string \<Rightarrow> node list" where
  "xpath_all doc pfx nm = filter (\<lambda>n. tag (snd n) = qname pfx nm) (doc_elements doc)"

text \<open>\<^verbatim>\<open>root.xpath('.//pfx:nm')\<close>: the same below the root element, the root excluded.\<close>

definition xpath_below :: "xml \<Rightarrow> string \<Rightarrow> string \<Rightarrow> node list" where
  "xpath_below doc pfx nm = filter (\<lambda>n. tag (snd n) = qname pfx nm) (tl (doc_elements doc))"

text \<open>
  The \<^verbatim>\<open>namespaces\<close> dict of the queries that use a prefix. The query for the main
  element of a component, \<^verbatim>\<open>//*[@id="..."]\<close>, is issued without one.
\<close>

definition bpmn_namespaces :: "(string \<times> string) list" where
  "bpmn_namespaces =
     [(''bpmn2'', ''http://www.omg.org/spec/BPMN/20100524/MODEL''),
      (''bpmn'', ''http://www.omg.org/spec/BPMN/20100524/MODEL''),
      (''bpmndi'', ''http://www.omg.org/spec/BPMN/20100524/DI'')]"

text \<open>The step \<^verbatim>\<open>//*\<close> or \<^verbatim>\<open>//pfx:nm\<close> of a query, as text and as the nodes it selects.\<close>

definition step_text :: "string \<Rightarrow> string \<Rightarrow> string" where
  "step_text pfx nm = (if pfx = [] then nm else pfx @ '':'' @ nm)"

definition xpath_step :: "xml \<Rightarrow> string \<Rightarrow> string \<Rightarrow> node list" where
  "xpath_step doc pfx nm =
     (if pfx = [] \<and> nm = ''*'' then doc_elements doc else xpath_all doc pfx nm)"

text \<open>
  A predicate \<^verbatim>\<open>[@attr="lit"]\<close> whose literal is pasted into the query text by an
  f-string. XPath has no escape inside a string literal. A pasted value without a double
  quote is therefore one literal, and the predicate compares the attribute with it. A
  pasted value with a double quote ends the literal early, and what follows the quote is
  read as XPath.

  The predicate text is evaluated here when it is built from comparisons
  \<^verbatim>\<open>operand = operand\<close>, joined by \<^verbatim>\<open>and\<close> and \<^verbatim>\<open>or\<close>, between attributes \<^verbatim>\<open>@name\<close> (letters
  and underscores) and string literals in double or single quotes, with white space
  between the tokens. \<^verbatim>\<open>and\<close> binds tighter than \<^verbatim>\<open>or\<close>. A comparison holds when a string
  value of its left operand is a string value of its right operand: a literal has itself
  as its one value, an attribute has its value when the element has the attribute and
  none otherwise. Every other predicate text is left to the XPath engine of the library.
\<close>

datatype xpath_token = Attribute string | Literal string | Equals | Or | And

definition xpath_space :: "char \<Rightarrow> bool" where
  "xpath_space c = (c \<in> set [CHR 0x20, CHR 0x09, CHR 0x0D, CHR 0x0A])"

definition name_char :: "char \<Rightarrow> bool" where
  "name_char c = (c \<in> set ''abcdefghijklmnopqrstuvwxyzABCDEFGHIJKLMNOPQRSTUVWXYZ_'')"

text \<open>
  What may follow an attribute name, and what may follow \<^verbatim>\<open>and\<close> or \<^verbatim>\<open>or\<close>, for the text
  to be split into tokens here.
\<close>

definition name_end :: "string \<Rightarrow> bool" where
  "name_end rest = (rest = [] \<or> xpath_space (hd rest) \<or> hd rest = CHR ''='')"

definition keyword_end :: "string \<Rightarrow> bool" where
  "keyword_end rest =
     (rest \<noteq> [] \<and> (xpath_space (hd rest) \<or> hd rest \<in> set [CHR 0x22, CHR 0x27, CHR ''@'']))"

function xpath_tokens :: "string \<Rightarrow> xpath_token list option" where
  "xpath_tokens [] = Some []"
| "xpath_tokens (c # cs) =
     (if xpath_space c then xpath_tokens cs
      else if c = CHR ''='' then map_option (Cons Equals) (xpath_tokens cs)
      else if c = CHR 0x22 \<or> c = CHR 0x27 then
        (if c \<in> set cs then
           map_option (Cons (Literal (takeWhile (\<lambda>d. d \<noteq> c) cs)))
                      (xpath_tokens (tl (dropWhile (\<lambda>d. d \<noteq> c) cs)))
         else None)
      else if c = CHR ''@'' then
        (if takeWhile name_char cs \<noteq> [] \<and> name_end (dropWhile name_char cs) then
           map_option (Cons (Attribute (takeWhile name_char cs)))
                      (xpath_tokens (dropWhile name_char cs))
         else None)
      else if prefix ''or'' (c # cs) \<and> keyword_end (drop 1 cs) then
        map_option (Cons Or) (xpath_tokens (drop 1 cs))
      else if prefix ''and'' (c # cs) \<and> keyword_end (drop 2 cs) then
        map_option (Cons And) (xpath_tokens (drop 2 cs))
      else None)"
  by pat_completeness auto
termination
  by (relation "measure length")
     (auto simp: le_imp_less_Suc length_dropWhile_le intro: le_less_trans[OF diff_le_self])

fun split_tokens :: "xpath_token \<Rightarrow> xpath_token list \<Rightarrow> xpath_token list list" where
  "split_tokens d [] = [[]]"
| "split_tokens d (t # ts) =
     (if t = d then [] # split_tokens d ts
      else (case split_tokens d ts of
              [] \<Rightarrow> [[t]]
            | x # xs \<Rightarrow> (t # x) # xs))"

fun is_operand :: "xpath_token \<Rightarrow> bool" where
  "is_operand (Attribute a) = True"
| "is_operand (Literal s) = True"
| "is_operand t = False"

fun xpath_comparison :: "xpath_token list \<Rightarrow> (xpath_token \<times> xpath_token) option" where
  "xpath_comparison [a, Equals, b] = (if is_operand a \<and> is_operand b then Some (a, b) else None)"
| "xpath_comparison ts = None"

text \<open>
  The predicate as a list of alternatives, each a list of comparisons that must all
  hold; \<open>None\<close> when the text is not of the form described above.
\<close>

definition xpath_predicate :: "string \<Rightarrow> (xpath_token \<times> xpath_token) list list option" where
  "xpath_predicate s = do {
     ts \<leftarrow> xpath_tokens s;
     those (map (\<lambda>alt. those (map xpath_comparison (split_tokens And alt)))
                (split_tokens Or ts))
   }"

fun operand_values :: "xml \<Rightarrow> xpath_token \<Rightarrow> string list" where
  "operand_values e (Literal s) = [s]"
| "operand_values e (Attribute a) = (case get e a of None \<Rightarrow> [] | Some v \<Rightarrow> [v])"
| "operand_values e t = []"

definition comparison_holds :: "xml \<Rightarrow> xpath_token \<times> xpath_token \<Rightarrow> bool" where
  "comparison_holds e cmp =
     list_ex (\<lambda>v. v \<in> set (operand_values e (snd cmp))) (operand_values e (fst cmp))"

definition predicate_holds :: "(xpath_token \<times> xpath_token) list list \<Rightarrow> xml \<Rightarrow> bool" where
  "predicate_holds alts e = list_ex (list_all (comparison_holds e)) alts"

definition predicate_text :: "string \<Rightarrow> string \<Rightarrow> string" where
  "predicate_text attr lit = ''@'' @ attr @ ''='' @ [CHR 0x22] @ lit @ [CHR 0x22]"

definition attr_is ::
  "lib \<Rightarrow> (string \<times> string) list \<Rightarrow> xml \<Rightarrow> string \<Rightarrow> string \<Rightarrow> string \<Rightarrow> string \<Rightarrow>
     node list option"
where
  "attr_is L namespaces doc pfx nm attr lit =
     (if CHR 0x22 \<notin> set lit then
        Some (filter (\<lambda>n. get (snd n) attr = Some lit) (xpath_step doc pfx nm))
      else
        (case xpath_predicate (predicate_text attr lit) of
           Some alts \<Rightarrow> Some (filter (\<lambda>n. predicate_holds alts (snd n)) (xpath_step doc pfx nm))
         | None \<Rightarrow>
             xpath L namespaces
               (''//'' @ step_text pfx nm @ ''['' @ predicate_text attr lit @ '']'') doc))"

section \<open>Chunks\<close>

text \<open>
  A chunk is a dict; its keys depend on the kind of chunk. A key a kind of chunk does not
  have is \<open>None\<close>. \<^verbatim>\<open>chunk_id\<close> is the key \<^verbatim>\<open>'id'\<close>.
\<close>

record flow_data =
  fd_id :: "string option"
  fd_sourceRef :: "string option"
  fd_targetRef :: "string option"
  fd_name :: string

datatype related_script =
    InlineScript (script_content: string) (script_length: nat)
  | FileScript (script_file_name: string) (script_chunk_id: string)

record chunk =
  chunk_id :: string
  file_name :: string
  file_type :: string
  component_id :: "string option"
  component_type :: "string option"
  activity_type :: "string option"
  content :: "string option"
  complete_bpmn_xml :: "string option"
  description :: string
  properties :: "(string \<times> string) list option"
  related_scripts :: "related_script list option"
  unresolved_script_refs :: "string list option"
  participant :: "string option"
  participants :: "(string \<times> string) option"
  sequence_flows :: "flow_data list option"
  connections :: "string option list option"
  signature :: string

definition sig16 :: "lib \<Rightarrow> string \<Rightarrow> string" where
  "sig16 L s = take 16 (sha256_hexdigest L s)"

section \<open>Component extraction\<close>

definition component_types :: "string list" where
  "component_types =
     [''startEvent'', ''endEvent'', ''serviceTask'', ''callActivity'',
      ''scriptTask'', ''userTask'', ''manualTask'', ''receiveTask'', ''sendTask'',
      ''exclusiveGateway'', ''parallelGateway'', ''inclusiveGateway'',
      ''eventBasedGateway'', ''participant'', ''boundaryEvent'',
      ''intermediateCatchEvent'', ''intermediateThrowEvent'']"

text \<open>\<^verbatim>\<open>_extract_all_component_ids\<close>: the innermost loop body, then the three nested loops.\<close>

definition add_component_id :: "string list \<Rightarrow> node \<Rightarrow> string list" where
  "add_component_id component_ids element =
     (case get (snd element) ''id'' of
        None \<Rightarrow> component_ids
      | Some cid \<Rightarrow>
          if cid \<noteq> [] \<and> cid \<notin> set component_ids then component_ids @ [cid]
          else component_ids)"

definition extract_all_component_ids :: "xml \<Rightarrow> string list" where
  "extract_all_component_ids doc =
     foldl (\<lambda>ids component_type.
              foldl (\<lambda>ids ns. foldl add_component_id ids (xpath_below doc ns component_type))
                    ids [''bpmn2'', ''bpmn''])
           [] component_types"

text \<open>
  \<^verbatim>\<open>_extract_component_elements\<close>. Each of the three deduplicating loops appends a node
  when its \<^verbatim>\<open>id\<close> is non-empty and not yet in the \<^verbatim>\<open>seen\<close> set of that loop.
\<close>

record component_elements =
  main_component :: "node option"
  outgoing_flows :: "node list"
  bpmn_shapes :: "node list"
  bpmn_edges :: "node list"

definition add_unseen :: "node list \<times> string set \<Rightarrow> node \<Rightarrow> node list \<times> string set" where
  "add_unseen st n =
     (case get (snd n) ''id'' of
        None \<Rightarrow> st
      | Some i \<Rightarrow>
          if i \<noteq> [] \<and> i \<notin> snd st then (fst st @ [n], insert i (snd st)) else st)"

text \<open>
  What a deduplicating loop keeps true: the collected nodes have pairwise different ids,
  and \<^verbatim>\<open>seen\<close> holds exactly their ids.
\<close>

definition unseen_inv :: "node list \<times> string set \<Rightarrow> bool" where
  "unseen_inv st =
     (distinct (map (\<lambda>n. get (snd n) ''id'') (fst st)) \<and>
      (\<forall>n \<in> set (fst st). \<exists>i. get (snd n) ''id'' = Some i \<and> i \<in> snd st) \<and>
      (\<forall>i \<in> snd st. \<exists>n \<in> set (fst st). get (snd n) ''id'' = Some i))"

text \<open>The loop over the ids of the outgoing flows that collects their diagram edges.\<close>

fun collect_edges ::
  "lib \<Rightarrow> xml \<Rightarrow> string option list \<Rightarrow> node list \<times> string set \<Rightarrow> (node list \<times> string set) option"
where
  "collect_edges L doc [] st = Some st"
| "collect_edges L doc (None # flow_ids) st = collect_edges L doc flow_ids st"
| "collect_edges L doc (Some flow_id # flow_ids) st =
     (if flow_id \<noteq> [] then
        (case attr_is L bpmn_namespaces doc ''bpmndi'' ''BPMNEdge'' ''bpmnElement'' flow_id of
           None \<Rightarrow> None
         | Some edges \<Rightarrow> collect_edges L doc flow_ids (foldl add_unseen st edges))
      else collect_edges L doc flow_ids st)"

definition extract_component_elements :: "lib \<Rightarrow> string \<Rightarrow> xml \<Rightarrow> component_elements option" where
  "extract_component_elements L cid doc = do {
     main \<leftarrow> attr_is L [] doc [] ''*'' ''id'' cid;
     out2 \<leftarrow> attr_is L bpmn_namespaces doc ''bpmn2'' ''sequenceFlow'' ''sourceRef'' cid;
     out1 \<leftarrow> attr_is L bpmn_namespaces doc ''bpmn'' ''sequenceFlow'' ''sourceRef'' cid;
     let outgoing = fst (foldl add_unseen (foldl add_unseen ([], {}) out2) out1);
     shapes \<leftarrow> attr_is L bpmn_namespaces doc ''bpmndi'' ''BPMNShape'' ''bpmnElement'' cid;
     let unseen_shapes = fst (foldl add_unseen ([], {}) shapes);
     edges \<leftarrow> collect_edges L doc (map (\<lambda>flow. get (snd flow) ''id'') outgoing) ([], {});
     Some \<lparr>main_component = (case main of [] \<Rightarrow> None | m # ms \<Rightarrow> Some m),
           outgoing_flows = outgoing,
           bpmn_shapes = unseen_shapes,
           bpmn_edges = fst edges\<rparr>
   }"

text \<open>
  \<^verbatim>\<open>_extract_component_properties\<close>. The inner loop over the children of a property
  element keeps the last \<^verbatim>\<open>key\<close> child and the last \<^verbatim>\<open>value\<close> child; the outer loop over
  \<^verbatim>\<open>element.iter()\<close> stores each pair with \<^verbatim>\<open>properties[key] = value\<close>. Calling
  \<^verbatim>\<open>.tag.endswith\<close> on a comment raises.
\<close>

fun key_value_children :: "xml list \<Rightarrow> xml option \<times> xml option \<Rightarrow> (xml option \<times> xml option) option" where
  "key_value_children [] kv = Some kv"
| "key_value_children (Special # subs) kv = None"
| "key_value_children (Elem t a x cs # subs) kv =
     (if endswith t ''}key'' \<or> t = ''key'' then
        key_value_children subs (Some (Elem t a x cs), snd kv)
      else if endswith t ''}value'' \<or> t = ''value'' then
        key_value_children subs (fst kv, Some (Elem t a x cs))
      else key_value_children subs kv)"

definition is_property_tag :: "string \<Rightarrow> bool" where
  "is_property_tag t = (endswith t ''}property'' \<or> contains ''property'' t)"

fun properties_loop :: "xml list \<Rightarrow> (string \<times> string) list \<Rightarrow> (string \<times> string) list option" where
  "properties_loop [] props = Some props"
| "properties_loop (Special # rest) props = None"
| "properties_loop (Elem t a x cs # rest) props =
     (if is_property_tag t then
        (case key_value_children cs (None, None) of
           None \<Rightarrow> None
         | Some (Some key_elem, Some value_elem) \<Rightarrow>
             if etext key_elem \<noteq> [] \<and> etext value_elem \<noteq> []
             then properties_loop rest (AList.update (etext key_elem) (etext value_elem) props)
             else properties_loop rest props
         | Some other \<Rightarrow> properties_loop rest props)
      else properties_loop rest props)"

definition extract_component_properties :: "xml \<Rightarrow> (string \<times> string) list option" where
  "extract_component_properties element = properties_loop (iter element) []"

text \<open>
  For stating which value a key ends up with: the key/value pair a node contributes, and
  the pairs of all nodes of a component in document order.
\<close>

fun property_pair :: "xml \<Rightarrow> (string \<times> string) list" where
  "property_pair (Elem t a x cs) =
     (if is_property_tag t then
        (case key_value_children cs (None, None) of
           Some (Some key_elem, Some value_elem) \<Rightarrow>
             if etext key_elem \<noteq> [] \<and> etext value_elem \<noteq> []
             then [(etext key_elem, etext value_elem)] else []
         | other \<Rightarrow> [])
      else [])"
| "property_pair Special = []"

definition property_pairs :: "xml \<Rightarrow> (string \<times> string) list" where
  "property_pairs element = concat (map property_pair (iter element))"

text \<open>An element with no comment, processing instruction or entity anywhere below it.\<close>

definition comment_free :: "xml \<Rightarrow> bool" where
  "comment_free element = list_all is_element (iter element)"

text \<open>
  \<^verbatim>\<open>_extract_inline_scripts\<close>: an exception ends the loop and what was collected so far
  is returned.
\<close>

fun inline_scripts_loop :: "xml list \<Rightarrow> related_script list \<Rightarrow> related_script list" where
  "inline_scripts_loop [] related = related"
| "inline_scripts_loop (Special # rest) related = related"
| "inline_scripts_loop (Elem t a x cs # rest) related =
     (if lower (local_name t) = ''script'' \<and> strip x \<noteq> []
      then inline_scripts_loop rest (related @ [InlineScript (strip x) (length (strip x))])
      else inline_scripts_loop rest related)"

definition extract_inline_scripts :: "xml \<Rightarrow> related_script list" where
  "extract_inline_scripts element = inline_scripts_loop (iter element) []"

subsection \<open>Ownership\<close>

definition add_participant :: "(string \<rightharpoonup> string) \<Rightarrow> node \<Rightarrow> (string \<rightharpoonup> string)" where
  "add_participant m p =
     (case (get (snd p) ''processRef'', get (snd p) ''id'') of
        (Some pref, Some pid) \<Rightarrow>
          if pref \<noteq> [] \<and> pid \<noteq> [] \<and> m pref = None then m(pref \<mapsto> pid) else m
      | other \<Rightarrow> m)"

definition build_process_to_participant_map :: "xml \<Rightarrow> (string \<rightharpoonup> string)" where
  "build_process_to_participant_map doc =
     foldl (\<lambda>m ns. foldl add_participant m (xpath_all doc ns ''participant''))
           Map.empty [''bpmn2'', ''bpmn'']"

text \<open>
  \<^verbatim>\<open>_find_owning_process_id\<close>: the \<^verbatim>\<open>id\<close> of the nearest ancestor whose local name is
  \<^verbatim>\<open>process\<close>.
\<close>

fun owning_process :: "xml list \<Rightarrow> string option" where
  "owning_process [] = None"
| "owning_process (parent # ancestors) =
     (if local_name (tag parent) = ''process'' then get parent ''id''
      else owning_process ancestors)"

definition find_owning_process_id :: "node \<Rightarrow> string option" where
  "find_owning_process_id element = owning_process (fst element)"

definition resolve_participant_for_element :: "node \<Rightarrow> xml \<Rightarrow> string option" where
  "resolve_participant_for_element element doc =
     (case find_owning_process_id element of
        None \<Rightarrow> None
      | Some proc_id \<Rightarrow>
          if proc_id = [] then None else build_process_to_participant_map doc proc_id)"

section \<open>The script index and the script reference resolver\<close>

text \<open>
  \<^verbatim>\<open>self.script_index\<close> maps a lower-cased file name or stem to an entry; \<^verbatim>\<open>chunk_id\<close> is
  \<^verbatim>\<open>None\<close> until the script's own chunk exists.
\<close>

record script_entry =
  se_file_name :: string
  se_chunk_id :: "string option"

type_synonym script_index = "string \<rightharpoonup> script_entry"

definition index_script_file :: "script_index \<Rightarrow> string \<Rightarrow> string \<Rightarrow> string option \<Rightarrow> script_index" where
  "index_script_file idx key relative_path cid =
     idx(lower key \<mapsto> \<lparr>se_file_name = relative_path, se_chunk_id = cid\<rparr>)"

definition index_script_path :: "script_index \<Rightarrow> path \<Rightarrow> script_index" where
  "index_script_path idx p =
     index_script_file (index_script_file idx (snd p) (relpath p) None)
                       (name_stem (snd p)) (relpath p) None"

definition build_script_index :: "script_index \<Rightarrow> all_files \<Rightarrow> script_index" where
  "build_script_index idx af = foldl index_script_path idx (bucket af ''groovy_scripts'')"

text \<open>
  \<^verbatim>\<open>_update_script_index_with_chunk\<close>: the chunk's \<^verbatim>\<open>file_name\<close> is a relative path string.
\<close>

definition set_entry_chunk_id :: "string \<Rightarrow> script_index \<Rightarrow> string \<Rightarrow> script_index" where
  "set_entry_chunk_id cid idx k =
     (case idx k of
        None \<Rightarrow> idx
      | Some e \<Rightarrow> idx(k \<mapsto> e\<lparr>se_chunk_id := Some cid\<rparr>))"

definition update_script_index_with_chunk :: "script_index \<Rightarrow> chunk \<Rightarrow> script_index" where
  "update_script_index_with_chunk idx c =
     foldl (set_entry_chunk_id (chunk_id c)) idx
           [lower (path_name (file_name c)), lower (path_stem (file_name c))]"

text \<open>\<^verbatim>\<open>_resolve_component_script_files\<close>: collecting the candidates, then the lookups.\<close>

definition property_candidate :: "string \<times> string \<Rightarrow> string list" where
  "property_candidate kv =
     (let val = strip (snd kv)
      in if val \<noteq> [] then
           (if endswith (lower val) ''.groovy'' \<or> endswith (lower val) ''.gsh'' then [val]
            else if list_ex (\<lambda>h. contains h (lower (fst kv))) [''script'', ''groovy'', ''gsh'']
            then [val]
            else [])
         else [])"

definition script_candidates :: "lib \<Rightarrow> (string \<times> string) list \<Rightarrow> string \<Rightarrow> string list" where
  "script_candidates L props component_xml =
     concat (map property_candidate props) @
     (if component_xml \<noteq> [] then findall_script_names L component_xml else [])"

text \<open>
  \<^verbatim>\<open>self.script_index.get(lc) or self.script_index.get(stem)\<close>: an entry is a dict with
  two keys, so it is never false and the second lookup runs only when the first misses.
\<close>

definition lookup_script :: "script_index \<Rightarrow> string \<Rightarrow> script_entry option" where
  "lookup_script idx lc =
     (case idx lc of
        Some entry \<Rightarrow> Some entry
      | None \<Rightarrow> idx (path_stem lc))"

definition resolved_ref :: "script_entry \<Rightarrow> related_script" where
  "resolved_ref entry =
     FileScript (se_file_name entry)
                (case se_chunk_id entry of None \<Rightarrow> [] | Some c \<Rightarrow> c)"

fun resolve_loop ::
  "script_index \<Rightarrow> string list \<Rightarrow> string set \<Rightarrow> related_script list \<times> string list
     \<Rightarrow> related_script list \<times> string list"
where
  "resolve_loop idx [] seen res = res"
| "resolve_loop idx (cand # cands) seen res =
     (if lower cand \<in> seen then resolve_loop idx cands seen res
      else
        (case lookup_script idx (lower cand) of
           Some entry \<Rightarrow>
             resolve_loop idx cands (insert (lower cand) seen)
                          (fst res @ [resolved_ref entry], snd res)
         | None \<Rightarrow>
             resolve_loop idx cands (insert (lower cand) seen) (fst res, snd res @ [cand])))"

definition resolve_component_script_files ::
  "lib \<Rightarrow> script_index \<Rightarrow> (string \<times> string) list \<Rightarrow> string \<Rightarrow> related_script list \<times> string list"
where
  "resolve_component_script_files L idx props component_xml =
     resolve_loop idx (script_candidates L props component_xml) {} ([], [])"

section \<open>Component chunks\<close>

text \<open>\<^verbatim>\<open>_get_component_type\<close>: \<^verbatim>\<open>tag.split('}')[1]\<close> when the tag has a brace.\<close>

definition get_component_type :: "xml \<Rightarrow> string" where
  "get_component_type element =
     (if CHR ''}'' \<in> set (tag element) then split_on (CHR ''}'') (tag element) ! 1
      else tag element)"

definition child_elements :: "xml \<Rightarrow> string \<Rightarrow> xml list" where
  "child_elements e nm = filter (\<lambda>c. is_element c \<and> tag c = nm) (children e)"

text \<open>
  \<^verbatim>\<open>_extract_activity_type\<close>: the query \<^verbatim>\<open>.//ifl:property[key="activityType"]/value\<close>
  selects, below the element, the un-namespaced \<^verbatim>\<open>value\<close> children of the property
  elements that have an un-namespaced \<^verbatim>\<open>key\<close> child with that string value.
\<close>

definition is_activity_type_property :: "lib \<Rightarrow> xml \<Rightarrow> bool" where
  "is_activity_type_property L e =
     (is_element e \<and> tag e = qname ''ifl'' ''property'' \<and>
      list_ex (\<lambda>k. string_value L k = ''activityType'') (child_elements e ''key''))"

definition extract_activity_type :: "lib \<Rightarrow> xml \<Rightarrow> string" where
  "extract_activity_type L element =
     (let activity_type_props =
            filter (\<lambda>n. is_element (snd n) \<and> tag (snd n) = ''value'' \<and>
                        2 \<le> length (fst n) \<and> is_activity_type_property L (hd (fst n)))
                   (iter_nodes [] element)
      in case activity_type_props of
           [] \<Rightarrow> []
         | v # vs \<Rightarrow> if etext (snd v) \<noteq> [] then strip (etext (snd v)) else [])"

text \<open>\<^verbatim>\<open>_build_complete_component_xml\<close>\<close>

definition build_complete_component_xml :: "lib \<Rightarrow> component_elements \<Rightarrow> string" where
  "build_complete_component_xml L ce =
     join [CHR 0x0A]
       ((case main_component ce of None \<Rightarrow> [] | Some m \<Rightarrow> [etree_tostring L m]) @
        map (etree_tostring L) (outgoing_flows ce) @
        map (etree_tostring L) (bpmn_shapes ce) @
        map (etree_tostring L)
            (filter (\<lambda>edge. get (snd edge) ''bpmnElement'' \<in>
                              set (map (\<lambda>flow. get (snd flow) ''id'') (outgoing_flows ce)))
                    (bpmn_edges ce)))"

text \<open>
  \<^verbatim>\<open>_generate_component_description\<close>, for a main component that was found; it reads the
  properties again, so it raises where \<^verbatim>\<open>_extract_component_properties\<close> does.
\<close>

definition generate_component_description :: "xml \<Rightarrow> string option" where
  "generate_component_description main = do {
     props \<leftarrow> extract_component_properties main;
     let component_type = get_component_type main;
     let component_name = (case get main ''name'' of None \<Rightarrow> [] | Some n \<Rightarrow> n);
     Some (join '' ''
       ([title (py_replace ''Task'' '' Task'' (py_replace ''Event'' '' Event'' component_type))] @
        (if component_name \<noteq> [] then [[CHR 0x27] @ component_name @ [CHR 0x27]] else []) @
        (case map_of props ''activityType'' of
           None \<Rightarrow> []
         | Some a \<Rightarrow> [''with activityType='' @ a]) @
        (case map_of props ''cmdVariantUri'' of
           None \<Rightarrow> []
         | Some variant \<Rightarrow>
             if contains ''ErrorStartEvent'' variant then [''for error handling'']
             else if contains ''Timer'' variant then [''for scheduled execution'']
             else if contains ''HTTP'' variant then [''for HTTP communication'']
             else [])))
   }"

definition outgoing_flow_data :: "node \<Rightarrow> flow_data" where
  "outgoing_flow_data flow =
     \<lparr>fd_id = get (snd flow) ''id'',
      fd_sourceRef = get (snd flow) ''sourceRef'',
      fd_targetRef = get (snd flow) ''targetRef'',
      fd_name = (case get (snd flow) ''name'' of None \<Rightarrow> [] | Some n \<Rightarrow> n)\<rparr>"

text \<open>
  \<^verbatim>\<open>_create_component_chunk\<close>. Any exception inside it is caught and the component is
  skipped (\<open>None\<close>). The test \<^verbatim>\<open>if not component_elements['main_component']\<close> is lxml's
  truth value of an element, which is false for an element without child nodes: such a
  component is skipped as well.
\<close>

definition create_component_chunk :: "lib \<Rightarrow> script_index \<Rightarrow> string \<Rightarrow> xml \<Rightarrow> path \<Rightarrow> chunk option" where
  "create_component_chunk L idx cid doc iflow_file = do {
     ce \<leftarrow> extract_component_elements L cid doc;
     main \<leftarrow> main_component ce;
     if children (snd main) = [] then None
     else do {
       let complete_xml = build_complete_component_xml L ce;
       desc \<leftarrow> generate_component_description (snd main);
       props \<leftarrow> extract_component_properties (snd main);
       let inline = extract_inline_scripts (snd main);
       let resolved = resolve_component_script_files L idx props complete_xml;
       let participant_id = resolve_participant_for_element main doc;
       Some \<lparr>chunk_id = name_stem (snd iflow_file) @ ''_'' @ cid,
             file_name = relpath iflow_file,
             file_type = ''bpmn'',
             component_id = Some cid,
             component_type = Some (get_component_type (snd main)),
             activity_type = Some (extract_activity_type L (snd main)),
             content = None,
             complete_bpmn_xml = Some complete_xml,
             description = desc,
             properties = Some props,
             related_scripts = Some (inline @ fst resolved),
             unresolved_script_refs = Some (snd resolved),
             participant = Some (case participant_id of None \<Rightarrow> [] | Some p \<Rightarrow> p),
             participants = None,
             sequence_flows = Some (map outgoing_flow_data (outgoing_flows ce)),
             connections = Some (map (\<lambda>flow. get (snd flow) ''id'') (outgoing_flows ce)),
             signature = sig16 L complete_xml\<rparr>
     }
   }"

section \<open>Flow chunks\<close>

definition flow_content :: "lib \<Rightarrow> node \<Rightarrow> node list \<Rightarrow> string" where
  "flow_content L flow di_edges =
     join [CHR 0x0A] (etree_tostring L flow # map (etree_tostring L) di_edges)"

definition or_default :: "string option \<Rightarrow> string \<Rightarrow> string" where
  "or_default v d = (case v of None \<Rightarrow> d | Some s \<Rightarrow> if s = [] then d else s)"

definition get_default :: "xml \<Rightarrow> string \<Rightarrow> string \<Rightarrow> string" where
  "get_default e k d = (case get e k of None \<Rightarrow> d | Some s \<Rightarrow> s)"

text \<open>
  \<^verbatim>\<open>_extract_message_flows\<close>. The loop runs over the result of the query for the prefix
  \<^verbatim>\<open>bpmn2\<close> and then over the result of the query for the prefix \<^verbatim>\<open>bpmn\<close>. An exception
  ends the function, which returns the chunks built so far.
\<close>

definition message_flow_chunk :: "lib \<Rightarrow> path \<Rightarrow> node \<Rightarrow> string \<Rightarrow> node list \<Rightarrow> chunk" where
  "message_flow_chunk L iflow_file flow flow_id edges =
     \<lparr>chunk_id = name_stem (snd iflow_file) @ ''_'' @ flow_id,
      file_name = relpath iflow_file,
      file_type = ''bpmn_message_flow'',
      component_id = Some flow_id,
      component_type = Some ''messageFlow'',
      activity_type = None,
      content = Some (flow_content L flow edges),
      complete_bpmn_xml = None,
      description = ''Message Flow '' @ [CHR 0x27] @ get_default (snd flow) ''name'' flow_id @ [CHR 0x27],
      properties = Some [],
      related_scripts = None,
      unresolved_script_refs = None,
      participant = None,
      participants = None,
      sequence_flows = None,
      connections = Some [Some (get_default (snd flow) ''sourceRef'' []),
                          Some (get_default (snd flow) ''targetRef'' [])],
      signature = sig16 L (flow_content L flow edges)\<rparr>"

fun message_flows_loop :: "lib \<Rightarrow> xml \<Rightarrow> path \<Rightarrow> node list \<Rightarrow> chunk list \<Rightarrow> chunk list" where
  "message_flows_loop L doc iflow_file [] chunks = chunks"
| "message_flows_loop L doc iflow_file (flow # flows) chunks =
     (let flow_id = or_default (get (snd flow) ''id'') ''messageFlow''
      in case attr_is L bpmn_namespaces doc ''bpmndi'' ''BPMNEdge'' ''bpmnElement'' flow_id of
           None \<Rightarrow> chunks
         | Some edges \<Rightarrow>
             message_flows_loop L doc iflow_file flows
               (chunks @ [message_flow_chunk L iflow_file flow flow_id edges]))"

definition extract_message_flows :: "lib \<Rightarrow> xml \<Rightarrow> path \<Rightarrow> chunk list" where
  "extract_message_flows L doc iflow_file =
     message_flows_loop L doc iflow_file
       (concat (map (\<lambda>ns. xpath_all doc ns ''messageFlow'') [''bpmn2'', ''bpmn''])) []"

text \<open>
  \<^verbatim>\<open>_extract_sequence_flows\<close>. \<^verbatim>\<open>element_process\<close> maps an element id to the id of the
  process that owns the first element with that id (which may be \<^verbatim>\<open>None\<close>).
\<close>

definition add_element_process ::
  "(string \<rightharpoonup> string option) \<Rightarrow> node \<Rightarrow> (string \<rightharpoonup> string option)" where
  "add_element_process m el =
     (case get (snd el) ''id'' of
        None \<Rightarrow> m
      | Some el_id \<Rightarrow>
          if el_id \<noteq> [] \<and> m el_id = None then m(el_id \<mapsto> owning_process (fst el)) else m)"

definition element_process_map :: "xml \<Rightarrow> (string \<rightharpoonup> string option)" where
  "element_process_map doc =
     foldl add_element_process Map.empty
           (filter (\<lambda>n. get (snd n) ''id'' \<noteq> None) (doc_elements doc))"

definition participant_of ::
  "(string \<rightharpoonup> string) \<Rightarrow> (string \<rightharpoonup> string option) \<Rightarrow> string \<Rightarrow> string" where
  "participant_of process_to_participant element_process ref =
     (case element_process ref of
        Some (Some proc) \<Rightarrow>
          if proc \<noteq> [] then (case process_to_participant proc of None \<Rightarrow> [] | Some p \<Rightarrow> p)
          else []
      | other \<Rightarrow> [])"

text \<open>
  The arrow between the two participants in the description is the byte sequence the
  source file has at that place.
\<close>

definition sequence_flow_chunk ::
  "lib \<Rightarrow> path \<Rightarrow> node \<Rightarrow> string \<Rightarrow> string \<Rightarrow> string \<Rightarrow> node list \<Rightarrow> chunk" where
  "sequence_flow_chunk L iflow_file flow flow_id src_part tgt_part di_edges =
     (let src = get_default (snd flow) ''sourceRef'' [];
          tgt = get_default (snd flow) ''targetRef'' []
      in \<lparr>chunk_id = name_stem (snd iflow_file) @ ''_'' @ flow_id,
           file_name = relpath iflow_file,
           file_type = ''bpmn_sequence_flow'',
           component_id = Some flow_id,
           component_type = Some ''sequenceFlow'',
           activity_type = None,
           content = Some (flow_content L flow di_edges),
           complete_bpmn_xml = None,
           description =
             ''Sequence Flow '' @ src @ ''->'' @ tgt @ '' (participants: '' @
             (if src_part \<noteq> [] then src_part else ''-'') @
             [CHR 0xC3, CHR 0xA2, CHR 0xE2, CHR 0x80, CHR 0xA0, CHR 0xE2, CHR 0x80, CHR 0x99] @
             (if tgt_part \<noteq> [] then tgt_part else ''-'') @ '')'',
           properties = Some [],
           related_scripts = None,
           unresolved_script_refs = None,
           participant = None,
           participants = Some (src_part, tgt_part),
           sequence_flows = None,
           connections = Some [Some src, Some tgt],
           signature = sig16 L (flow_content L flow di_edges)\<rparr>)"

fun sequence_flows_loop ::
  "lib \<Rightarrow> xml \<Rightarrow> path \<Rightarrow> (string \<rightharpoonup> string) \<Rightarrow> (string \<rightharpoonup> string option) \<Rightarrow>
     node list \<Rightarrow> chunk list \<Rightarrow> chunk list"
where
  "sequence_flows_loop L doc iflow_file p2p ep [] chunks = chunks"
| "sequence_flows_loop L doc iflow_file p2p ep (flow # flows) chunks =
     (let flow_id = or_default (get (snd flow) ''id'') ''sequenceFlow'';
          src_part = participant_of p2p ep (get_default (snd flow) ''sourceRef'' []);
          tgt_part = participant_of p2p ep (get_default (snd flow) ''targetRef'' [])
      in case attr_is L bpmn_namespaces doc ''bpmndi'' ''BPMNEdge'' ''bpmnElement'' flow_id of
           None \<Rightarrow> chunks
         | Some di_edges \<Rightarrow>
             sequence_flows_loop L doc iflow_file p2p ep flows
               (chunks @ [sequence_flow_chunk L iflow_file flow flow_id src_part tgt_part di_edges]))"

definition extract_sequence_flows :: "lib \<Rightarrow> xml \<Rightarrow> path \<Rightarrow> chunk list" where
  "extract_sequence_flows L doc iflow_file =
     sequence_flows_loop L doc iflow_file
       (build_process_to_participant_map doc) (element_process_map doc)
       (concat (map (\<lambda>ns. xpath_all doc ns ''sequenceFlow'') [''bpmn2'', ''bpmn''])) []"

section \<open>Process and subprocess chunks\<close>

text \<open>\<^verbatim>\<open>_format_xml_with_indentation\<close> and \<^verbatim>\<open>_clean_process_xml\<close>.\<close>

fun format_loop :: "string list \<Rightarrow> nat \<Rightarrow> string list \<Rightarrow> string list" where
  "format_loop [] indent_level formatted_lines = formatted_lines"
| "format_loop (element # elements) indent_level formatted_lines =
     (if strip element = [] then format_loop elements indent_level formatted_lines
      else if prefix ''</'' element then
        format_loop elements (indent_level - 1)
          (formatted_lines @ [concat (replicate (indent_level - 1) ''    '') @ element])
      else if prefix ''<'' element \<and> \<not> endswith element ''/>'' then
        format_loop elements
          (if \<not> prefix ''<?'' element \<and> \<not> prefix ''<!'' element
           then indent_level + 1 else indent_level)
          (formatted_lines @ [concat (replicate indent_level ''    '') @ element])
      else
        format_loop elements indent_level
          (formatted_lines @ [concat (replicate indent_level ''    '') @ element]))"

definition format_xml_with_indentation :: "lib \<Rightarrow> string \<Rightarrow> string" where
  "format_xml_with_indentation L xml_content =
     (if xml_content = [] then xml_content
      else join [CHR 0x0A] (format_loop (split_tags L xml_content) 0 []))"

definition clean_process_xml :: "lib \<Rightarrow> string \<Rightarrow> string" where
  "clean_process_xml L xml_content =
     (if xml_content = [] then xml_content
      else format_xml_with_indentation L
             (sub_space_between_tags L
               (sub_newline_indent L
                 (sub_tag_prefix L
                   (sub_xmlns_decl L xml_content)))))"

text \<open>
  \<^verbatim>\<open>_generate_process_description\<close>: \<^verbatim>\<open>hasattr(self, 'embedding_generator')\<close> always
  holds, so the generator is called; calling it on \<^verbatim>\<open>None\<close> raises and the handler
  returns a fixed sentence.
\<close>

definition generate_process_description :: "lib \<Rightarrow> string \<Rightarrow> string \<Rightarrow> string" where
  "generate_process_description L context_text process_type =
     (case embedding_generator L of
        Some generate_description \<Rightarrow> generate_description context_text process_type
      | None \<Rightarrow>
          if process_type = ''subprocess''
          then ''SubProcess component for specialized processing within the integration flow.''
          else ''Process component for main integration flow orchestration.'')"

text \<open>
  The direct properties of a container: \<^verbatim>\<open>./bpmn2:extensionElements/ifl:property\<close>, or
  \<^verbatim>\<open>./extensionElements/property\<close> when the first query finds nothing; for each one
  \<^verbatim>\<open>prop.find('ifl:key')\<close>, then \<^verbatim>\<open>prop.find('key')\<close>, and the same for the value.
\<close>

definition direct_props :: "xml \<Rightarrow> xml list" where
  "direct_props container =
     (let with_ns = concat (map (\<lambda>ext. child_elements ext (qname ''ifl'' ''property''))
                                (child_elements container (qname ''bpmn2'' ''extensionElements'')))
      in if with_ns \<noteq> [] then with_ns
         else concat (map (\<lambda>ext. child_elements ext ''property'')
                          (child_elements container ''extensionElements'')))"

definition find_child :: "xml \<Rightarrow> string \<Rightarrow> string \<Rightarrow> xml option" where
  "find_child prop qualified plain =
     (case child_elements prop qualified of
        e # es \<Rightarrow> Some e
      | [] \<Rightarrow> (case child_elements prop plain of e # es \<Rightarrow> Some e | [] \<Rightarrow> None))"

definition add_direct_prop ::
  "string \<Rightarrow> (string \<times> string) list \<times> string \<Rightarrow> xml \<Rightarrow> (string \<times> string) list \<times> string" where
  "add_direct_prop type_key st prop =
     (case (find_child prop (qname ''ifl'' ''key'') ''key'',
            find_child prop (qname ''ifl'' ''value'') ''value'') of
        (Some key_elem, Some value_elem) \<Rightarrow>
          if etext key_elem \<noteq> [] \<and> etext value_elem \<noteq> [] then
            (AList.update (etext key_elem) (etext value_elem) (fst st),
             if etext key_elem = type_key then etext value_elem else snd st)
          else st
      | other \<Rightarrow> st)"

text \<open>
  \<^verbatim>\<open>_extract_processes\<close> and \<^verbatim>\<open>_extract_subprocesses\<close> are the same code up to the
  element name, the default id, the property that gives the type, and the labels of the
  text handed to the description generator; neither has a statement that can raise.
\<close>

definition container_chunk ::
  "lib \<Rightarrow> path \<Rightarrow> string \<Rightarrow> string \<Rightarrow> string \<times> string \<times> string \<Rightarrow> string \<Rightarrow> node \<Rightarrow> string
     \<Rightarrow> chunk" where
  "container_chunk L iflow_file kind type_key labels ctype container the_id =
     (let st = foldl (add_direct_prop type_key) ([], []) (direct_props (snd container));
          clean_xml = clean_process_xml L (etree_tostring L container);
          description_context =
            fst labels @ the_id @ [CHR 0x0A] @
            fst (snd labels) @ get_default (snd container) ''name'' [] @ [CHR 0x0A] @
            snd (snd labels) @ snd st @ [CHR 0x0A] @
            ''Properties: '' @ dict_repr L (fst st)
      in \<lparr>chunk_id = name_stem (snd iflow_file) @ ''_'' @ the_id,
           file_name = relpath iflow_file,
           file_type = ''bpmn'',
           component_id = Some the_id,
           component_type = Some ctype,
           activity_type = Some (snd st),
           content = None,
           complete_bpmn_xml = Some clean_xml,
           description = generate_process_description L description_context kind,
           properties = Some (fst st),
           related_scripts = Some [],
           unresolved_script_refs = Some [],
           participant = Some [],
           participants = None,
           sequence_flows = Some [],
           connections = Some [],
           signature = sig16 L clean_xml\<rparr>)"

fun containers_loop ::
  "lib \<Rightarrow> path \<Rightarrow> string \<Rightarrow> string \<Rightarrow> string \<times> string \<times> string \<Rightarrow> string \<Rightarrow> string \<Rightarrow>
     node list \<Rightarrow> string set \<Rightarrow> chunk list \<Rightarrow> chunk list"
where
  "containers_loop L iflow_file kind type_key labels ctype default_id [] processed_ids chunks = chunks"
| "containers_loop L iflow_file kind type_key labels ctype default_id (c # cs) processed_ids chunks =
     (let the_id = or_default (get (snd c) ''id'') default_id
      in if the_id \<in> processed_ids then
           containers_loop L iflow_file kind type_key labels ctype default_id cs processed_ids chunks
         else
           containers_loop L iflow_file kind type_key labels ctype default_id cs
             (insert the_id processed_ids)
             (chunks @ [container_chunk L iflow_file kind type_key labels ctype c the_id]))"

definition extract_processes :: "lib \<Rightarrow> xml \<Rightarrow> path \<Rightarrow> chunk list" where
  "extract_processes L doc iflow_file =
     containers_loop L iflow_file ''process'' ''processType''
       (''Process ID: '', ''Process Name: '', ''Process Type: '') ''process'' ''process''
       (xpath_all doc ''bpmn2'' ''process'') {} []"

definition extract_subprocesses :: "lib \<Rightarrow> xml \<Rightarrow> path \<Rightarrow> chunk list" where
  "extract_subprocesses L doc iflow_file =
     containers_loop L iflow_file ''subprocess'' ''activityType''
       (''SubProcess ID: '', ''SubProcess Name: '', ''Activity Type: '') ''subProcess'' ''subprocess''
       (xpath_all doc ''bpmn2'' ''subProcess'') {} []"

section \<open>The process-definition document\<close>

text \<open>\<^verbatim>\<open>_create_full_iflow_chunk\<close>\<close>

definition create_full_iflow_chunk :: "lib \<Rightarrow> path \<Rightarrow> string \<Rightarrow> chunk" where
  "create_full_iflow_chunk L iflow_file full_xml =
     \<lparr>chunk_id = name_stem (snd iflow_file) @ ''_full_xml'',
      file_name = relpath iflow_file,
      file_type = ''bpmn_full_xml'',
      component_id = Some ''full_xml'',
      component_type = Some ''bpmnDefinitions'',
      activity_type = None,
      content = Some full_xml,
      complete_bpmn_xml = None,
      description = ''Complete iFlow BPMN XML'',
      properties = Some [],
      related_scripts = None,
      unresolved_script_refs = None,
      participant = None,
      participants = None,
      sequence_flows = None,
      connections = Some [],
      signature = sig16 L full_xml\<rparr>"

text \<open>
  \<^verbatim>\<open>_process_main_iflow_with_components\<close>. Reading the file and parsing it are inside the
  \<^verbatim>\<open>try\<close>: when either raises, the empty list is returned. Nothing after the parse can
  raise outside a handler of its own.
\<close>

definition component_chunks :: "lib \<Rightarrow> script_index \<Rightarrow> xml \<Rightarrow> path \<Rightarrow> chunk list" where
  "component_chunks L idx doc iflow_file =
     List.map_filter (\<lambda>cid. create_component_chunk L idx cid doc iflow_file)
                     (extract_all_component_ids doc)"

definition process_main_iflow_with_components ::
  "lib \<Rightarrow> filesystem \<Rightarrow> script_index \<Rightarrow> path \<Rightarrow> chunk list" where
  "process_main_iflow_with_components L fs idx iflow_file =
     (case read_text fs iflow_file of
        None \<Rightarrow> []
      | Some text_content \<Rightarrow>
          (case etree_fromstring L text_content of
             None \<Rightarrow> []
           | Some doc \<Rightarrow>
               [create_full_iflow_chunk L iflow_file text_content] @
               component_chunks L idx doc iflow_file @
               extract_message_flows L doc iflow_file @
               extract_sequence_flows L doc iflow_file @
               extract_processes L doc iflow_file @
               extract_subprocesses L doc iflow_file))"

section \<open>Auxiliary files\<close>

text \<open>\<^verbatim>\<open>_generate_file_description\<close>\<close>

definition generate_file_description :: "string \<Rightarrow> string \<Rightarrow> string \<Rightarrow> string" where
  "generate_file_description fname ftype text_content =
     (let file_lower = lower fname; content_lower = lower text_content
      in if ftype = ''groovy_scripts'' then
           (if contains ''commission'' file_lower then
              ''Groovy script for commission processing and data iteration''
            else if contains ''validation'' file_lower \<or> contains ''validate'' content_lower then
              ''Groovy script for data validation and quality checks''
            else if contains ''transformation'' file_lower \<or> contains ''transform'' content_lower then
              ''Groovy script for data transformation and mapping''
            else ''Groovy script for integration flow processing'')
         else if ftype = ''xsd_files'' then
           (if contains ''employee'' file_lower then
              ''XSD schema definition for employee data structure''
            else if contains ''title'' file_lower then
              ''XSD schema definition for title and response data''
            else ''XSD schema definition for data validation'')
         else if ftype = ''message_mappings'' then
           ''Message mapping configuration for data transformation between systems''
         else if ftype = ''properties_files'' then
           (if contains ''parameter'' file_lower then
              ''Properties file defining integration flow parameters and configuration''
            else if contains ''metainfo'' file_lower then
              ''Properties file with integration package metadata''
            else ''Properties configuration file'')
         else if ftype = ''manifest_files'' then
           ''MANIFEST.MF file containing package metadata and deployment information''
         else title (py_replace ''_'' '' '' ftype) @ '' file'')"

definition skip_patterns :: "string list" where
  "skip_patterns =
     [''_chunks.json'', ''enhanced_iflow_chunks.json'', ''clean_iflow_chunks.json'',
      ''.env'', ''.py'', ''.md'', ''.txt'', ''.pyc'']"

definition allowed_extensions :: "string list" where
  "allowed_extensions =
     [''.groovy'', ''.gsh'', ''.xsd'', ''.mmap'', ''.wsdl'', ''.properties'', ''.prop'',
      ''.propdef'', ''.xsl'', ''.xslt'']"

text \<open>
  \<^verbatim>\<open>_process_related_file\<close>: the chunk of one auxiliary file, or \<^verbatim>\<open>None\<close> when the file is
  skipped or anything raises. A script file is entered into the script index with its
  chunk id.
\<close>

definition related_file_chunk :: "lib \<Rightarrow> path \<Rightarrow> string \<Rightarrow> string \<Rightarrow> chunk" where
  "related_file_chunk L file_path ftype text_content =
     \<lparr>chunk_id = name_stem (snd file_path) @ ''_'' @ ftype,
      file_name = relpath file_path,
      file_type = ftype,
      component_id = None,
      component_type = None,
      activity_type = None,
      content = Some text_content,
      complete_bpmn_xml = None,
      description = generate_file_description (snd file_path) ftype text_content,
      properties = None,
      related_scripts = None,
      unresolved_script_refs = None,
      participant = None,
      participants = None,
      sequence_flows = None,
      connections = None,
      signature = sig16 L text_content\<rparr>"

definition process_related_file ::
  "lib \<Rightarrow> filesystem \<Rightarrow> script_index \<Rightarrow> path \<Rightarrow> string \<Rightarrow> chunk option \<times> script_index" where
  "process_related_file L fs idx file_path ftype =
     (let fname = snd file_path;
          file_ext = lower (name_suffix fname)
      in if list_ex (\<lambda>pattern. contains pattern fname \<or> endswith fname pattern) skip_patterns
         then (None, idx)
         else if file_ext = ''.json'' \<and>
                 (case getsize fs file_path of None \<Rightarrow> True | Some n \<Rightarrow> 10000 < n)
         then (None, idx)
         else if file_ext \<noteq> ''.json'' \<and> file_ext \<notin> set allowed_extensions \<and>
                 fname \<noteq> ''MANIFEST.MF''
         then (None, idx)
         else
           (case read_text fs file_path of
              None \<Rightarrow> (None, idx)
            | Some text_content \<Rightarrow>
                if 50000 < length text_content then (None, idx)
                else
                  (let c = related_file_chunk L file_path ftype text_content
                   in (Some c,
                       if ftype = ''groovy_scripts''
                       then index_script_file idx fname (relpath file_path) (Some (chunk_id c))
                       else idx))))"

text \<open>
  The state of an \<^verbatim>\<open>EnhancedIFlowChunker\<close>: \<^verbatim>\<open>self.chunks\<close>, \<^verbatim>\<open>self.processed_files\<close>
  and \<^verbatim>\<open>self.script_index\<close>.
\<close>

record chunker =
  st_chunks :: "chunk list"
  st_processed_files :: "path list"
  st_script_index :: script_index

text \<open>
  \<^verbatim>\<open>_process_all_related_files\<close>: the loop body for one file of one category; the
  function returns the list \<^verbatim>\<open>processed\<close> next to the changed state.
\<close>

definition process_one_related ::
  "lib \<Rightarrow> filesystem \<Rightarrow> string \<Rightarrow> chunker \<times> path list \<Rightarrow> path \<Rightarrow> chunker \<times> path list" where
  "process_one_related L fs ftype acc file_path =
     (let st = fst acc;
          r = process_related_file L fs (st_script_index st) file_path ftype
      in case fst r of
           None \<Rightarrow> (st\<lparr>st_script_index := snd r\<rparr>, snd acc)
         | Some c \<Rightarrow>
             (st\<lparr>st_chunks := st_chunks st @ [c],
                 st_script_index :=
                   (if ftype = ''groovy_scripts''
                    then update_script_index_with_chunk (snd r) c
                    else snd r)\<rparr>,
              snd acc @ [file_path]))"

definition process_all_related_files ::
  "lib \<Rightarrow> filesystem \<Rightarrow> chunker \<Rightarrow> all_files \<Rightarrow> chunker \<times> path list" where
  "process_all_related_files L fs st af =
     foldl (\<lambda>acc item.
              if fst item = ''main_iflow'' then acc
              else foldl (process_one_related L fs (fst item)) acc (snd item))
           (st, []) af"

section \<open>Coverage\<close>

text \<open>
  \<^verbatim>\<open>_verify_complete_coverage\<close>. The percentages are Python floats computed by one
  division and one multiplication of integers; they are kept here as the exact rational
  numbers.
\<close>

record breakdown =
  bd_total :: nat
  bd_processed :: nat
  bd_coverage :: rat

record coverage_report =
  total_files_discovered :: nat
  total_files_processed :: nat
  coverage_percentage :: rat
  file_type_breakdown :: "(string \<times> breakdown) list"
  missing_files :: "path list"

definition percentage :: "nat \<Rightarrow> nat \<Rightarrow> rat" where
  "percentage n_processed n_total =
     (if 0 < n_total then of_nat n_processed / of_nat n_total * 100 else 100)"

definition category_breakdown :: "path list \<Rightarrow> string \<times> path list \<Rightarrow> string \<times> breakdown" where
  "category_breakdown processed item =
     (let processed_count = length (filter (\<lambda>f. f \<in> set processed) (snd item))
      in (fst item,
          \<lparr>bd_total = length (snd item),
           bd_processed = processed_count,
           bd_coverage = percentage processed_count (length (snd item))\<rparr>))"

definition verify_complete_coverage :: "path list \<Rightarrow> all_files \<Rightarrow> coverage_report" where
  "verify_complete_coverage processed af =
     \<lparr>total_files_discovered = sum_list (map (\<lambda>item. length (snd item)) af),
      total_files_processed = length processed,
      coverage_percentage =
        percentage (length processed) (sum_list (map (\<lambda>item. length (snd item)) af)),
      file_type_breakdown = map (category_breakdown processed) af,
      missing_files =
        concat (map (\<lambda>item. filter (\<lambda>file_path. file_path \<notin> set processed) (snd item)) af)\<rparr>"

section \<open>One decomposition run\<close>

record run_result =
  total_chunks :: nat
  processed_files :: nat
  coverage :: coverage_report
  chunks :: "chunk list"

text \<open>\<^verbatim>\<open>process_complete_iflow_package\<close> on a freshly constructed chunker.\<close>

definition new_chunker :: chunker where
  "new_chunker = \<lparr>st_chunks = [], st_processed_files = [], st_script_index = Map.empty\<rparr>"

definition process_complete_iflow_package :: "lib \<Rightarrow> filesystem \<Rightarrow> run_result" where
  "process_complete_iflow_package L fs =
     (let af = discover_all_files fs;
          main_iflow = find_main_iflow af;
          st0 = new_chunker\<lparr>st_script_index := build_script_index Map.empty af\<rparr>;
          st1 = (case main_iflow of
                   None \<Rightarrow> st0
                 | Some p \<Rightarrow>
                     st0\<lparr>st_chunks :=
                           st_chunks st0 @
                           process_main_iflow_with_components L fs (st_script_index st0) p,
                         st_processed_files := st_processed_files st0 @ [p]\<rparr>);
          r = process_all_related_files L fs st1 af;
          st2 = (fst r)\<lparr>st_processed_files := st_processed_files (fst r) @ snd r\<rparr>
      in \<lparr>total_chunks = length (st_chunks st2),
          processed_files = length (st_processed_files st2),
          coverage = verify_complete_coverage (st_processed_files st2) af,
          chunks = st_chunks st2\<rparr>)"

text \<open>
  For stating what a run returns: the chunks it takes from the process-definition
  document, the file types of auxiliary files, and the paths the walk reports.
\<close>

definition main_iflow_chunks :: "lib \<Rightarrow> filesystem \<Rightarrow> chunk list" where
  "main_iflow_chunks L fs =
     (case find_main_iflow (discover_all_files fs) of
        None \<Rightarrow> []
      | Some p \<Rightarrow>
          process_main_iflow_with_components L fs
            (build_script_index Map.empty (discover_all_files fs)) p)"

definition aux_categories :: "string list" where
  "aux_categories =
     [''groovy_scripts'', ''xsd_files'', ''message_mappings'', ''wsdl_files'',
      ''properties_files'', ''xslt_files'', ''json_files'', ''manifest_files'']"

text \<open>
  The auxiliary files that end up in \<^verbatim>\<open>self.processed_files\<close>, and the whole list at the
  end of a run: whether \<^verbatim>\<open>_process_related_file\<close> returns a chunk for a file does not
  depend on the script index.
\<close>

definition related_processed :: "lib \<Rightarrow> filesystem \<Rightarrow> all_files \<Rightarrow> path list" where
  "related_processed L fs af =
     concat (map (\<lambda>item. if fst item = ''main_iflow'' then []
                          else filter (\<lambda>f. fst (process_related_file L fs Map.empty f (fst item))
                                            \<noteq> None)
                                      (snd item))
                 af)"

definition processed_paths :: "lib \<Rightarrow> filesystem \<Rightarrow> path list" where
  "processed_paths L fs =
     (case find_main_iflow (discover_all_files fs) of None \<Rightarrow> [] | Some p \<Rightarrow> [p]) @
     related_processed L fs (discover_all_files fs)"

text \<open>
  The text a chunk's signature is taken from, and two chunks that agree in every field
  but the description.
\<close>

definition chunk_body :: "chunk \<Rightarrow> string" where
  "chunk_body c =
     (case content c of
        Some s \<Rightarrow> s
      | None \<Rightarrow> (case complete_bpmn_xml c of Some s \<Rightarrow> s | None \<Rightarrow> []))"

text \<open>
  A chunk taken from the process-definition document \<open>p\<close>, and a chunk of the auxiliary
  file \<open>f\<close>: the signature is the first sixteen digits of the hash of the body, the id is
  the stem of the file name followed by the element or flow id, or by the file type.
\<close>

definition doc_keyed :: "lib \<Rightarrow> path \<Rightarrow> chunk \<Rightarrow> bool" where
  "doc_keyed L p c =
     (signature c = sig16 L (chunk_body c) \<and>
      (case component_id c of
         None \<Rightarrow> False
       | Some cid \<Rightarrow> chunk_id c = name_stem (snd p) @ ''_'' @ cid))"

definition file_keyed :: "lib \<Rightarrow> path \<Rightarrow> chunk \<Rightarrow> bool" where
  "file_keyed L f c =
     (signature c = sig16 L (chunk_body c) \<and> component_id c = None \<and>
      chunk_id c = name_stem (snd f) @ ''_'' @ file_type c)"

definition same_but_description :: "chunk \<Rightarrow> chunk \<Rightarrow> bool" where
  "same_but_description c c' = (c\<lparr>description := []\<rparr> = c'\<lparr>description := []\<rparr>)"

definition same_but_descriptions :: "chunker \<Rightarrow> chunker \<Rightarrow> bool" where
  "same_but_descriptions st st' =
     (st_script_index st = st_script_index st' \<and>
      st_processed_files st = st_processed_files st' \<and>
      list_all2 same_but_description (st_chunks st) (st_chunks st'))"

text \<open>
  Sequence flows that carry the same id have the same source. This holds in particular
  when the ids of the sequence flows are unique in the document.
\<close>

definition flow_ids_have_one_source :: "xml \<Rightarrow> bool" where
  "flow_ids_have_one_source doc =
     list_all (\<lambda>n. list_all (\<lambda>m. get (snd n) ''id'' = get (snd m) ''id'' \<longrightarrow>
                                   get (snd n) ''sourceRef'' = get (snd m) ''sourceRef'')
                             (xpath_all doc ''bpmn2'' ''sequenceFlow''))
              (xpath_all doc ''bpmn2'' ''sequenceFlow'')"

text \<open>No component id of the document has a double quote in it.\<close>

definition plain_component_ids :: "xml \<Rightarrow> bool" where
  "plain_component_ids doc = list_all (\<lambda>i. CHR 0x22 \<notin> set i) (extract_all_component_ids doc)"

definition walk_paths :: "dtree \<Rightarrow> path list" where
  "walk_paths t = concat (map (\<lambda>entry. map (Pair (fst entry)) (snd entry)) (os_walk [] t))"

section \<open>Example packages\<close>

text \<open>
  A stand-in for the libraries, for running the chunker on small packages: the parser
  accepts one text and returns the given document for it, an element is printed as its
  local name, the hash is the identity, the regular expressions find nothing, and the
  XPath engine rejects every query text that is left to it.
\<close>

definition demo_lib :: "xml \<Rightarrow> lib" where
  "demo_lib doc =
     \<lparr>etree_fromstring = (\<lambda>s. if s = ''<definitions/>'' then Some doc else None),
      etree_tostring = (\<lambda>n. ''<'' @ local_name (tag (snd n)) @ ''/>''),
      string_value = etext,
      sha256_hexdigest = (\<lambda>s. s),
      sub_xmlns_decl = (\<lambda>s. s),
      sub_tag_prefix = (\<lambda>s. s),
      sub_newline_indent = (\<lambda>s. s),
      sub_space_between_tags = (\<lambda>s. s),
      split_tags = (\<lambda>s. [s]),
      findall_script_names = (\<lambda>s. []),
      dict_repr = (\<lambda>d. ''{}''),
      embedding_generator = None,
      xpath = (\<lambda>namespaces query tree. None)\<rparr>"

text \<open>The same stand-in with a parser that rejects every text.\<close>

definition no_parse_lib :: lib where
  "no_parse_lib = (demo_lib Special)\<lparr>etree_fromstring := (\<lambda>s. None)\<rparr>"

definition demo_fs :: "string list \<Rightarrow> (string \<times> dtree) list \<Rightarrow> filesystem" where
  "demo_fs files dirs =
     \<lparr>tree = Dir files dirs,
      getsize = (\<lambda>p. Some 13),
      read_text = (\<lambda>p. if endswith (snd p) ''.iflw'' then Some ''<definitions/>''
                         else Some ''def x = 1'')\<rparr>"

text \<open>A package that holds one script, and one that holds two.\<close>

definition one_script_af :: all_files where
  "one_script_af = discover_all_files (demo_fs [''Validate.gsh''] [])"

definition two_scripts_af :: all_files where
  "two_scripts_af = discover_all_files (demo_fs [''Validate.gsh'', ''Validate.groovy.gsh''] [])"

text \<open>Small documents: elements of the BPMN model namespace and SAP property elements.\<close>

definition el :: "string \<Rightarrow> (string \<times> string) list \<Rightarrow> xml list \<Rightarrow> xml" where
  "el nm attrs cs = Elem (qname ''bpmn2'' nm) attrs [] cs"

definition kv_prop :: "string \<Rightarrow> string \<Rightarrow> xml" where
  "kv_prop k v =
     Elem (qname ''ifl'' ''property'') [] [] [Elem ''key'' [] k [], Elem ''value'' [] v []]"

definition ext :: "xml list \<Rightarrow> xml" where
  "ext ps = el ''extensionElements'' [] ps"

text \<open>
  One process with a start event, an end event and the sequence flow between them; the
  start event carries the property key \<^verbatim>\<open>a\<close> twice.
\<close>

definition start_event_dup_key :: xml where
  "start_event_dup_key =
     el ''startEvent'' [(''id'', ''S1'')] [ext [kv_prop ''a'' ''1'', kv_prop ''a'' ''2'']]"

definition doc_one_flow :: xml where
  "doc_one_flow =
     el ''definitions'' []
       [el ''process'' [(''id'', ''P1'')]
          [start_event_dup_key,
           el ''endEvent'' [(''id'', ''E1'')] [ext []],
           el ''sequenceFlow''
              [(''id'', ''F1''), (''sourceRef'', ''S1''), (''targetRef'', ''E1'')] []]]"

text \<open>Two start events, each the source of a sequence flow; both flows have the id \<^verbatim>\<open>F\<close>.\<close>

definition doc_shared_flow_id :: xml where
  "doc_shared_flow_id =
     el ''definitions'' []
       [el ''startEvent'' [(''id'', ''A'')] [ext []],
        el ''startEvent'' [(''id'', ''B'')] [ext []],
        el ''sequenceFlow'' [(''id'', ''F''), (''sourceRef'', ''A''), (''targetRef'', ''E'')] [],
        el ''sequenceFlow'' [(''id'', ''F''), (''sourceRef'', ''B''), (''targetRef'', ''E'')] []]"

text \<open>
  Two start events and one sequence flow \<^verbatim>\<open>G\<close>, which leaves the second start event \<^verbatim>\<open>B\<close>.
  The id of the first start event is the text \<^verbatim>\<open>x" or "1"="1\<close>.
\<close>

definition quoted_id :: string where
  "quoted_id =
     ''x'' @ [CHR 0x22] @ '' or '' @ [CHR 0x22] @ ''1'' @ [CHR 0x22] @ ''='' @ [CHR 0x22] @ ''1''"

definition doc_quoted_id :: xml where
  "doc_quoted_id =
     el ''definitions'' []
       [el ''startEvent'' [(''id'', quoted_id)] [ext []],
        el ''startEvent'' [(''id'', ''B'')] [ext []],
        el ''sequenceFlow'' [(''id'', ''G''), (''sourceRef'', ''B''), (''targetRef'', ''E'')] []]"

section \<open>Properties of file discovery\<close>

lemma contains_iff_sublist: "contains pat s = sublist pat s"
  by (induction s) (auto simp: sublist_Cons_right)

lemma set_discovered_bucket_append:
  "set (discovered (bucket_append key p af)) \<subseteq> insert p (set (discovered af))"
  by (induction af) (auto simp: discovered_def bucket_append_def split: if_splits)

lemma discover_file_names:
  "set (discovered (discover_file fs d af file)) \<subseteq>
     set (discovered af) \<union> (if excluded file then {} else {(d, file)})"
  using set_discovered_bucket_append[of _ "(d, file)" af]
  unfolding discover_file_def Let_def
  by (auto split: option.splits)

lemma discover_dir_names:
  "set (discovered (foldl (discover_file fs d) af files)) \<subseteq>
     set (discovered af) \<union> {(d, f) | f. f \<in> set files \<and> \<not> excluded f}"
proof (induction files arbitrary: af)
  case Nil
  then show ?case by simp
next
  case (Cons f files)
  show ?case
    using Cons.IH[of "discover_file fs d af f"] discover_file_names[of fs d af f]
    by (auto split: if_splits)
qed

lemma discover_walk_names:
  "set (discovered (foldl (discover_dir fs) af w)) \<subseteq>
     set (discovered af) \<union>
     {(d, f) | d f files. (d, files) \<in> set w \<and> f \<in> set files \<and> \<not> excluded f}"
proof (induction w arbitrary: af)
  case Nil
  then show ?case by simp
next
  case (Cons e w)
  show ?case
    using Cons.IH[of "discover_dir fs af e"] discover_dir_names[of fs "fst e" af "snd e"]
    by (cases e) (auto simp: discover_dir_def)
qed

lemma discovered_empty: "discovered empty_all_files = []"
  by (simp add: discovered_def empty_all_files_def)

lemma discovered_subset_walk:
  "set (discovered (discover_all_files fs)) \<subseteq>
     {(d, f) | d f files. (d, files) \<in> set (os_walk [] (tree fs)) \<and> f \<in> set files \<and> \<not> excluded f}"
  using discover_walk_names[of fs empty_all_files "os_walk [] (tree fs)"]
  by (simp add: discover_all_files_def discovered_empty)

text \<open>
  C9. A file whose name contains one of the exclusion patterns anywhere is in no bucket of
  the discovery result, whatever its extension and whatever directory it is in.
\<close>

theorem excluded_name_never_discovered:
  assumes "pattern \<in> set exclude_patterns" and "sublist pattern file"
  shows "(d, file) \<notin> set (discovered (discover_all_files fs))"
proof -
  have "excluded file"
    using assms by (auto simp: excluded_def list_ex_iff contains_iff_sublist)
  then show ?thesis
    using discovered_subset_walk[of fs] by auto
qed

lemmas discover_eval =
  demo_fs_def discover_all_files_def discover_dir_def discover_file_def excluded_def
  exclude_patterns_def empty_all_files_def bucket_append_def lower_def lower_char_def
  path_suffix_def path_name_def name_suffix_def rfind_dot_def discovered_def

theorem excluded_name_never_discovered_witness:
  "''.txt'' \<in> set exclude_patterns \<and> sublist ''.txt'' ''notes.txt.xsd'' \<and>
   ([], ''notes.txt.xsd'') \<notin> set (discovered (discover_all_files
       (demo_fs [''notes.txt.xsd'', ''schema.xsd''] []))) \<and>
   ([], ''schema.xsd'') \<in> set (discovered (discover_all_files
       (demo_fs [''notes.txt.xsd'', ''schema.xsd''] [])))"
proof -
  have p: "''.txt'' \<in> set exclude_patterns"
    by (simp add: exclude_patterns_def)
  have s: "sublist ''.txt'' ''notes.txt.xsd''"
    by (simp add: contains_iff_sublist[symmetric])
  have "([], ''schema.xsd'') \<in> set (discovered (discover_all_files
       (demo_fs [''notes.txt.xsd'', ''schema.xsd''] [])))"
    by (simp add: discover_eval)
  then show ?thesis
    using p s excluded_name_never_discovered[OF p s, of "[]" "demo_fs [''notes.txt.xsd'', ''schema.xsd''] []"]
    by blast
qed

section \<open>Properties of component chunks\<close>

text \<open>What a component chunk is made of, when \<^verbatim>\<open>_create_component_chunk\<close> returns one.\<close>

lemma create_component_chunk_SomeD:
  assumes "create_component_chunk L idx cid doc p = Some c"
  shows "\<exists>ce main props.
           extract_component_elements L cid doc = Some ce \<and>
           main_component ce = Some main \<and>
           children (snd main) \<noteq> [] \<and>
           extract_component_properties (snd main) = Some props \<and>
           properties c = Some props \<and>
           component_id c = Some cid \<and>
           file_type c = ''bpmn'' \<and>
           doc_keyed L p c \<and>
           connections c = Some (map (\<lambda>flow. get (snd flow) ''id'') (outgoing_flows ce)) \<and>
           sequence_flows c = Some (map outgoing_flow_data (outgoing_flows ce))"
proof -
  obtain ce where ce: "extract_component_elements L cid doc = Some ce"
    using assms
    by (cases "extract_component_elements L cid doc") (simp_all add: create_component_chunk_def)
  obtain main where main: "main_component ce = Some main"
    using assms ce by (cases "main_component ce") (simp_all add: create_component_chunk_def)
  have ch: "children (snd main) \<noteq> []"
    using assms ce main by (simp add: create_component_chunk_def split: if_splits)
  obtain props where props: "extract_component_properties (snd main) = Some props"
    using assms ce main ch
    by (cases "extract_component_properties (snd main)")
       (simp_all add: create_component_chunk_def generate_component_description_def)
  obtain desc where desc: "generate_component_description (snd main) = Some desc"
    using props by (simp add: generate_component_description_def Let_def)
  have c: "c = \<lparr>chunk_id = name_stem (snd p) @ ''_'' @ cid,
             file_name = relpath p,
             file_type = ''bpmn'',
             component_id = Some cid,
             component_type = Some (get_component_type (snd main)),
             activity_type = Some (extract_activity_type L (snd main)),
             content = None,
             complete_bpmn_xml = Some (build_complete_component_xml L ce),
             description = desc,
             properties = Some props,
             related_scripts = Some (extract_inline_scripts (snd main) @
                fst (resolve_component_script_files L idx props
                       (build_complete_component_xml L ce))),
             unresolved_script_refs =
               Some (snd (resolve_component_script_files L idx props
                            (build_complete_component_xml L ce))),
             participant =
               Some (case resolve_participant_for_element main doc of
                       None \<Rightarrow> [] | Some q \<Rightarrow> q),
             participants = None,
             sequence_flows = Some (map outgoing_flow_data (outgoing_flows ce)),
             connections = Some (map (\<lambda>flow. get (snd flow) ''id'') (outgoing_flows ce)),
             signature = sig16 L (build_complete_component_xml L ce)\<rparr>"
    using assms ce main ch props desc
    by (simp add: create_component_chunk_def Let_def)
  show ?thesis
    by (rule exI[of _ ce], rule exI[of _ main], rule exI[of _ props])
       (simp add: ce main ch props c doc_keyed_def chunk_body_def)
qed

subsection \<open>The property map\<close>

lemma map_of_foldl_update:
  "map_of (foldl (\<lambda>acc kv. AList.update (fst kv) (snd kv) acc) acc ps) k =
     (case map_of (rev ps) k of Some v \<Rightarrow> Some v | None \<Rightarrow> map_of acc k)"
proof (induction ps arbitrary: acc)
  case Nil
  then show ?case by simp
next
  case (Cons q ps)
  show ?case
    by (cases q) (auto simp: Cons.IH update_conv' map_add_def split: option.splits)
qed

lemma properties_loop_pairs:
  "properties_loop xs acc = Some props \<Longrightarrow>
     props = foldl (\<lambda>acc kv. AList.update (fst kv) (snd kv) acc) acc
                   (concat (map property_pair xs))"
proof (induction xs acc rule: properties_loop.induct)
  case (1 props)
  then show ?case by simp
next
  case (2 rest props)
  then show ?case by simp
next
  case (3 t a x cs rest props)
  then show ?case
    by (auto split: if_splits option.splits prod.splits)
qed

lemma extract_component_properties_last:
  assumes "extract_component_properties e = Some props"
  shows "map_of props = map_of (rev (property_pairs e))"
proof
  fix k
  show "map_of props k = map_of (rev (property_pairs e)) k"
    using properties_loop_pairs[OF assms[unfolded extract_component_properties_def]]
    by (simp add: map_of_foldl_update property_pairs_def split: option.splits)
qed

text \<open>The harvest raises only on a comment-like node.\<close>

lemma self_in_iter: "e \<in> set (iter e)"
  by (cases e) auto

lemma children_in_iter:
  "x \<in> set (iter e) \<Longrightarrow> is_element x \<Longrightarrow> set (children x) \<subseteq> set (iter e)"
proof (induction e)
  case (Elem t a tx cs)
  show ?case
  proof (cases "x = Elem t a tx cs")
    case True
    then show ?thesis using self_in_iter by auto
  next
    case False
    then obtain c where c: "c \<in> set cs" "x \<in> set (iter c)"
      using Elem.prems by auto
    then have "set (children x) \<subseteq> set (iter c)"
      using Elem.IH[OF c(1) c(2) Elem.prems(2)] by simp
    then show ?thesis using c(1) by auto
  qed
next
  case Special
  then show ?case by simp
qed

lemma key_value_children_total:
  "list_all is_element cs \<Longrightarrow> key_value_children cs kv \<noteq> None"
  by (induction cs kv rule: key_value_children.induct) auto

lemma properties_loop_total:
  "\<forall>x \<in> set xs. is_element x \<and> list_all is_element (children x) \<Longrightarrow>
     properties_loop xs acc \<noteq> None"
proof (induction xs acc rule: properties_loop.induct)
  case (1 props)
  then show ?case by simp
next
  case (2 rest props)
  then show ?case by simp
next
  case (3 t a x cs rest props)
  then show ?case
    using key_value_children_total[of cs "(None, None)"]
    by (auto split: option.splits prod.splits)
qed

lemma extract_component_properties_total:
  assumes "comment_free e"
  shows "extract_component_properties e \<noteq> None"
proof -
  have "\<forall>x \<in> set (iter e). is_element x \<and> list_all is_element (children x)"
  proof
    fix x assume x: "x \<in> set (iter e)"
    then have el: "is_element x"
      using assms by (auto simp: comment_free_def list_all_iff)
    moreover have "set (children x) \<subseteq> set (iter e)"
      using children_in_iter[OF x el] .
    ultimately show "is_element x \<and> list_all is_element (children x)"
      using assms by (auto simp: comment_free_def list_all_iff)
  qed
  then show ?thesis
    unfolding extract_component_properties_def by (rule properties_loop_total)
qed

text \<open>
  C6, as the code has it. The property map of a component chunk is harvested from all
  nodes of the component element in document order, and where a key occurs in more than
  one property element the \<^emph>\<open>last\<close> one gives the stored value: looking a key up in the
  chunk's map is looking it up in the reversed list of harvested pairs.
\<close>

theorem component_properties_last_match_wins:
  assumes "create_component_chunk L idx cid doc p = Some c"
  shows "\<exists>ce main props.
           extract_component_elements L cid doc = Some ce \<and>
           main_component ce = Some main \<and>
           properties c = Some props \<and>
           map_of props = map_of (rev (property_pairs (snd main)))"
proof -
  obtain ce main props where *:
    "extract_component_elements L cid doc = Some ce" "main_component ce = Some main"
    "extract_component_properties (snd main) = Some props" "properties c = Some props"
    using create_component_chunk_SomeD[OF assms] by blast
  show ?thesis
    using * extract_component_properties_last[OF *(3)] by blast
qed

theorem component_properties_last_match_wins_witness:
  "\<exists>c. create_component_chunk (demo_lib doc_one_flow) Map.empty ''S1'' doc_one_flow
          ([], ''flow.iflw'') = Some c \<and>
       (\<exists>ce main props.
           extract_component_elements (demo_lib doc_one_flow) ''S1'' doc_one_flow = Some ce \<and>
           main_component ce = Some main \<and>
           properties c = Some props \<and>
           map_of props = map_of (rev (property_pairs (snd main))))"
proof -
  have "create_component_chunk (demo_lib doc_one_flow) Map.empty ''S1'' doc_one_flow
          ([], ''flow.iflw'') \<noteq> None"
    by code_simp
  then obtain c where c:
    "create_component_chunk (demo_lib doc_one_flow) Map.empty ''S1'' doc_one_flow
       ([], ''flow.iflw'') = Some c"
    by blast
  show ?thesis
    using c component_properties_last_match_wins[OF c] by blast
qed

text \<open>
  The claim as written (the first match per key wins) fails on a start event that has the
  key \<^verbatim>\<open>a\<close> first with the value \<^verbatim>\<open>1\<close> and then with the value \<^verbatim>\<open>2\<close>: the first harvested
  pair is \<^verbatim>\<open>(a, 1)\<close>, the stored value is \<^verbatim>\<open>2\<close>.
\<close>

theorem component_properties_first_match_counterexample:
  "property_pairs start_event_dup_key = [(''a'', ''1''), (''a'', ''2'')] \<and>
   extract_component_properties start_event_dup_key = Some [(''a'', ''2'')]"
  by code_simp

section \<open>Properties of script resolution\<close>

lemma dom_index_script_path:
  "dom (index_script_path idx p) = dom idx \<union> {lower (snd p), lower (name_stem (snd p))}"
  by (auto simp: index_script_path_def index_script_file_def)

lemma dom_foldl_index_script_path:
  "dom (foldl index_script_path idx ps) =
     dom idx \<union> (\<Union>p \<in> set ps. {lower (snd p), lower (name_stem (snd p))})"
  by (induction ps arbitrary: idx) (auto simp: dom_index_script_path)

lemma dom_build_script_index:
  "dom (build_script_index Map.empty af) =
     (\<Union>p \<in> set (bucket af ''groovy_scripts''). {lower (snd p), lower (name_stem (snd p))})"
  by (simp add: build_script_index_def dom_foldl_index_script_path)

lemma resolve_loop_mono:
  "set (fst res) \<subseteq> set (fst (resolve_loop idx cands seen res))"
proof (induction idx cands seen res rule: resolve_loop.induct)
  case (1 idx seen res)
  then show ?case by simp
next
  case (2 idx cand cands seen res)
  then show ?case
    by (auto split: option.splits)
qed

lemma resolve_loop_resolved:
  "cand \<in> set cands \<Longrightarrow> lower cand \<notin> seen \<Longrightarrow> lookup_script idx (lower cand) = Some e \<Longrightarrow>
     resolved_ref e \<in> set (fst (resolve_loop idx cands seen res))"
proof (induction cands arbitrary: seen res)
  case Nil
  then show ?case by simp
next
  case (Cons c cands)
  show ?case
  proof (cases "lower c \<in> seen")
    case True
    then have "cand \<in> set cands" using Cons.prems by auto
    then show ?thesis using True Cons.IH[OF _ Cons.prems(2,3)] by simp
  next
    case False
    show ?thesis
    proof (cases "lower c = lower cand")
      case True
      then show ?thesis
        using False Cons.prems(3)
              resolve_loop_mono[of "(fst res @ [resolved_ref e], snd res)" idx cands
                                   "insert (lower cand) seen"]
        by auto
    next
      case neq: False
      then have "cand \<in> set cands" "lower cand \<notin> insert (lower c) seen"
        using Cons.prems by auto
      then show ?thesis
        using False Cons.IH[OF _ _ Cons.prems(3)]
        by (auto split: option.splits)
    qed
  qed
qed

lemma resolve_loop_unresolved:
  "x \<in> set (snd (resolve_loop idx cands seen res)) \<Longrightarrow>
     x \<in> set (snd res) \<or> lookup_script idx (lower x) = None"
proof (induction idx cands seen res rule: resolve_loop.induct)
  case (1 idx seen res)
  then show ?case by simp
next
  case (2 idx cand cands seen res)
  then show ?case
    by (auto split: if_splits option.splits)
qed

text \<open>
  C7, as the code has it. The index is the one built from the discovered script files, and
  \<open>cand\<close> is one of the candidates collected for a component. If \<open>cand\<close> equals the file
  name of an indexed script up to case, the lookup by full name finds an entry and \<open>cand\<close>
  is reported as resolved. If the stem of \<open>cand\<close> is the stem of an indexed script, and
  \<open>cand\<close> itself is, up to case, neither the file name nor the stem of any indexed script,
  then the lookup by full name misses, the lookup by stem finds an entry, and \<open>cand\<close> is
  reported as resolved, not as unresolved.
\<close>

theorem script_candidate_resolution:
  assumes p: "p \<in> set (bucket af ''groovy_scripts'')"
    and c: "cand \<in> set (script_candidates L props component_xml)"
  shows
    "(lower cand = lower (snd p) \<longrightarrow>
        (\<exists>e. build_script_index Map.empty af (lower cand) = Some e \<and>
             resolved_ref e \<in> set (fst (resolve_component_script_files L
                 (build_script_index Map.empty af) props component_xml))) \<and>
        cand \<notin> set (snd (resolve_component_script_files L
                 (build_script_index Map.empty af) props component_xml))) \<and>
     (path_stem (lower cand) = lower (name_stem (snd p)) \<and>
      (\<forall>q \<in> set (bucket af ''groovy_scripts'').
          lower cand \<noteq> lower (snd q) \<and> lower cand \<noteq> lower (name_stem (snd q))) \<longrightarrow>
        build_script_index Map.empty af (lower cand) = None \<and>
        (\<exists>e. build_script_index Map.empty af (path_stem (lower cand)) = Some e \<and>
             resolved_ref e \<in> set (fst (resolve_component_script_files L
                 (build_script_index Map.empty af) props component_xml))) \<and>
        cand \<notin> set (snd (resolve_component_script_files L
                 (build_script_index Map.empty af) props component_xml)))"
proof -
  let ?idx = "build_script_index Map.empty af"
  let ?res = "resolve_component_script_files L ?idx props component_xml"
  have res: "?res = resolve_loop ?idx (script_candidates L props component_xml) {} ([], [])"
    by (simp add: resolve_component_script_files_def)
  have hit: "resolved_ref e \<in> set (fst ?res) \<and> cand \<notin> set (snd ?res)"
    if "lookup_script ?idx (lower cand) = Some e" for e
    using resolve_loop_resolved[OF c _ that, of "{}" "([], [])"]
          resolve_loop_unresolved[of cand ?idx "script_candidates L props component_xml"
                                     "{}" "([], [])"]
          that
    by (auto simp: res)
  have full: "lower (snd p) \<in> dom ?idx" and stem: "lower (name_stem (snd p)) \<in> dom ?idx"
    using p by (auto simp: dom_build_script_index)
  show ?thesis
  proof (intro conjI impI)
    assume eq: "lower cand = lower (snd p)"
    then obtain e where e: "?idx (lower cand) = Some e"
      using full by auto
    then have "lookup_script ?idx (lower cand) = Some e"
      by (simp add: lookup_script_def)
    from hit[OF this] e
    show "\<exists>e. ?idx (lower cand) = Some e \<and> resolved_ref e \<in> set (fst ?res)"
      and "cand \<notin> set (snd ?res)"
      by auto
  next
    assume a: "path_stem (lower cand) = lower (name_stem (snd p)) \<and>
      (\<forall>q \<in> set (bucket af ''groovy_scripts'').
          lower cand \<noteq> lower (snd q) \<and> lower cand \<noteq> lower (name_stem (snd q)))"
    then have "lower cand \<notin> dom ?idx"
      by (auto simp: dom_build_script_index)
    then have none: "?idx (lower cand) = None"
      by auto
    obtain e where e: "?idx (path_stem (lower cand)) = Some e"
      using a stem by auto
    then have "lookup_script ?idx (lower cand) = Some e"
      using none by (simp add: lookup_script_def)
    from hit[OF this] e none
    show "?idx (lower cand) = None"
      and "\<exists>e. ?idx (path_stem (lower cand)) = Some e \<and> resolved_ref e \<in> set (fst ?res)"
      and "cand \<notin> set (snd ?res)"
      by auto
  qed
qed

text \<open>
  Both cases at the package that holds \<^verbatim>\<open>Validate.gsh\<close>: the candidate \<^verbatim>\<open>VALIDATE.GSH\<close>
  resolves by its full name, the candidate \<^verbatim>\<open>Validate.groovy\<close> by its stem only.
\<close>

theorem script_candidate_resolution_witness:
  "([], ''Validate.gsh'') \<in> set (bucket one_script_af ''groovy_scripts'') \<and>
   ''VALIDATE.GSH'' \<in> set (script_candidates (demo_lib Special) [(''script'', ''VALIDATE.GSH'')] []) \<and>
   lower ''VALIDATE.GSH'' = lower ''Validate.gsh'' \<and>
   (\<exists>e. build_script_index Map.empty one_script_af (lower ''VALIDATE.GSH'') = Some e) \<and>
   ''VALIDATE.GSH'' \<notin> set (snd (resolve_component_script_files (demo_lib Special)
        (build_script_index Map.empty one_script_af) [(''script'', ''VALIDATE.GSH'')] [])) \<and>
   ''Validate.groovy'' \<in> set (script_candidates (demo_lib Special) [(''script'', ''Validate.groovy'')] []) \<and>
   path_stem (lower ''Validate.groovy'') = lower (name_stem ''Validate.gsh'') \<and>
   build_script_index Map.empty one_script_af (lower ''Validate.groovy'') = None \<and>
   (\<exists>e. build_script_index Map.empty one_script_af (path_stem (lower ''Validate.groovy'')) = Some e) \<and>
   ''Validate.groovy'' \<notin> set (snd (resolve_component_script_files (demo_lib Special)
        (build_script_index Map.empty one_script_af) [(''script'', ''Validate.groovy'')] []))"
proof -
  have p: "([], ''Validate.gsh'') \<in> set (bucket one_script_af ''groovy_scripts'')"
    by code_simp
  have c1: "''VALIDATE.GSH'' \<in>
      set (script_candidates (demo_lib Special) [(''script'', ''VALIDATE.GSH'')] [])"
    by code_simp
  have e1: "lower ''VALIDATE.GSH'' = lower (snd ([]::string list, ''Validate.gsh''))"
    by code_simp
  have c2: "''Validate.groovy'' \<in>
      set (script_candidates (demo_lib Special) [(''script'', ''Validate.groovy'')] [])"
    by code_simp
  have e2: "path_stem (lower ''Validate.groovy'') =
              lower (name_stem (snd ([]::string list, ''Validate.gsh''))) \<and>
            (\<forall>q \<in> set (bucket one_script_af ''groovy_scripts'').
                lower ''Validate.groovy'' \<noteq> lower (snd q) \<and>
                lower ''Validate.groovy'' \<noteq> lower (name_stem (snd q)))"
    by code_simp
  note full = script_candidate_resolution[OF p c1, THEN conjunct1, rule_format, OF e1]
  note stem = script_candidate_resolution[OF p c2, THEN conjunct2, rule_format, OF e2]
  have e1': "lower ''VALIDATE.GSH'' = lower ''Validate.gsh''"
    using e1 by (simp only: snd_conv)
  have e2': "path_stem (lower ''Validate.groovy'') = lower (name_stem ''Validate.gsh'')"
    using e2 by (simp only: snd_conv)
  show ?thesis
    using p c1 c2 e1' e2' full stem by blast
qed

text \<open>
  The claim as written fails when the candidate is, up to case, the stem of another
  indexed script. The package holds \<^verbatim>\<open>Validate.gsh\<close> and \<^verbatim>\<open>Validate.groovy.gsh\<close>. The
  candidate \<^verbatim>\<open>Validate.groovy\<close> has the stem of the first script and a different
  recognised extension, yet the lookup by its full name finds the entry that the second
  script left under its stem.
\<close>

theorem stem_match_found_by_full_name_counterexample:
  "([], ''Validate.gsh'') \<in> set (bucket two_scripts_af ''groovy_scripts'') \<and>
   path_stem (lower ''Validate.groovy'') = lower (name_stem ''Validate.gsh'') \<and>
   lower (name_suffix ''Validate.gsh'') = ''.gsh'' \<and>
   path_suffix (lower ''Validate.groovy'') = ''.groovy'' \<and>
   build_script_index Map.empty two_scripts_af (lower ''Validate.groovy'') =
     Some \<lparr>se_file_name = ''Validate.groovy.gsh'', se_chunk_id = None\<rparr>"
  by code_simp

section \<open>Properties of a run\<close>

lemma keys_bucket_append: "map fst (bucket_append key p af) = map fst af"
  by (induction af) (auto simp: bucket_append_def)

lemma keys_discover_file: "map fst (discover_file fs d af file) = map fst af"
  by (simp add: discover_file_def Let_def keys_bucket_append split: option.splits)

lemma keys_discover_dir: "map fst (discover_dir fs af e) = map fst af"
proof -
  have "map fst (foldl (discover_file fs d) af files) = map fst af" for d files
    by (induction files arbitrary: af) (simp_all add: keys_discover_file)
  then show ?thesis by (simp add: discover_dir_def)
qed

lemma keys_discover_all_files:
  "map fst (discover_all_files fs) = map fst empty_all_files"
proof -
  have "map fst (foldl (discover_dir fs) af w) = map fst af" for af w
    by (induction w arbitrary: af) (simp_all add: keys_discover_dir)
  then show ?thesis by (simp add: discover_all_files_def)
qed

lemma discover_all_files_shape:
  "\<exists>b0 rest. discover_all_files fs = (''main_iflow'', b0) # rest \<and>
      map fst rest = [''groovy_scripts'', ''xsd_files'', ''message_mappings'', ''wsdl_files'',
                      ''properties_files'', ''xslt_files'', ''json_files'', ''manifest_files'']"
proof -
  have k: "map fst (discover_all_files fs) = map fst empty_all_files"
    by (rule keys_discover_all_files)
  then obtain x rest where xr: "discover_all_files fs = x # rest"
    by (cases "discover_all_files fs") (auto simp: empty_all_files_def)
  then show ?thesis
    using k by (cases x) (auto simp: empty_all_files_def)
qed

text \<open>The file type of every chunk an extractor returns.\<close>

lemma component_chunks_cases:
  assumes "c \<in> set (component_chunks L idx doc p)"
  obtains cid where "cid \<in> set (extract_all_component_ids doc)"
    and "create_component_chunk L idx cid doc p = Some c"
  using assms by (auto simp: component_chunks_def map_filter_def)

lemma component_chunks_file_type:
  assumes "c \<in> set (component_chunks L idx doc p)"
  shows "file_type c = ''bpmn'' \<and> component_id c \<noteq> None \<and> doc_keyed L p c"
proof -
  obtain cid where "create_component_chunk L idx cid doc p = Some c"
    using assms by (rule component_chunks_cases)
  from create_component_chunk_SomeD[OF this] show ?thesis by auto
qed

lemma message_flows_loop_file_type:
  "c \<in> set (message_flows_loop L doc p flows acc) \<Longrightarrow>
     c \<in> set acc \<or>
     (file_type c = ''bpmn_message_flow'' \<and> component_id c \<noteq> None \<and> doc_keyed L p c)"
proof (induction flows arbitrary: acc)
  case Nil
  then show ?case by simp
next
  case (Cons flow flows)
  show ?case
  proof (cases "attr_is L bpmn_namespaces doc ''bpmndi'' ''BPMNEdge'' ''bpmnElement''
                  (or_default (get (snd flow) ''id'') ''messageFlow'')")
    case None
    then show ?thesis using Cons.prems by (simp add: Let_def)
  next
    case (Some edges)
    then show ?thesis
      using Cons.prems Cons.IH[of "acc @ [message_flow_chunk L p flow
               (or_default (get (snd flow) ''id'') ''messageFlow'') edges]"]
      by (auto simp: Let_def message_flow_chunk_def doc_keyed_def chunk_body_def)
  qed
qed

lemma sequence_flows_loop_file_type:
  "c \<in> set (sequence_flows_loop L doc p p2p ep flows acc) \<Longrightarrow>
     c \<in> set acc \<or>
     (file_type c = ''bpmn_sequence_flow'' \<and> component_id c \<noteq> None \<and> doc_keyed L p c)"
proof (induction flows arbitrary: acc)
  case Nil
  then show ?case by simp
next
  case (Cons flow flows)
  show ?case
  proof (cases "attr_is L bpmn_namespaces doc ''bpmndi'' ''BPMNEdge'' ''bpmnElement''
                  (or_default (get (snd flow) ''id'') ''sequenceFlow'')")
    case None
    then show ?thesis using Cons.prems by (simp add: Let_def)
  next
    case (Some edges)
    then show ?thesis
      using Cons.prems Cons.IH[of "acc @ [sequence_flow_chunk L p flow
               (or_default (get (snd flow) ''id'') ''sequenceFlow'')
               (participant_of p2p ep (get_default (snd flow) ''sourceRef'' []))
               (participant_of p2p ep (get_default (snd flow) ''targetRef'' [])) edges]"]
      by (auto simp: Let_def sequence_flow_chunk_def doc_keyed_def chunk_body_def)
  qed
qed

lemma containers_loop_file_type:
  "c \<in> set (containers_loop L p kind tk labels ctype dflt cs seen acc) \<Longrightarrow>
     c \<in> set acc \<or> (file_type c = ''bpmn'' \<and> component_id c \<noteq> None \<and> doc_keyed L p c)"
proof (induction cs arbitrary: seen acc)
  case Nil
  then show ?case by simp
next
  case (Cons x cs)
  show ?case
  proof (cases "or_default (get (snd x) ''id'') dflt \<in> seen")
    case True
    then show ?thesis using Cons.prems Cons.IH[of seen acc] by (simp add: Let_def)
  next
    case False
    then show ?thesis
      using Cons.prems
            Cons.IH[of "insert (or_default (get (snd x) ''id'') dflt) seen"
                       "acc @ [container_chunk L p kind tk labels ctype x
                                 (or_default (get (snd x) ''id'') dflt)]"]
      by (auto simp: Let_def container_chunk_def doc_keyed_def chunk_body_def)
  qed
qed

lemma main_iflow_chunks_file_type:
  assumes "c \<in> set (process_main_iflow_with_components L fs idx p)"
  shows "file_type c \<in> {''bpmn_full_xml'', ''bpmn'', ''bpmn_message_flow'', ''bpmn_sequence_flow''} \<and>
         component_id c \<noteq> None \<and> doc_keyed L p c"
proof -
  obtain s where s1: "read_text fs p = Some s"
    using assms
    by (cases "read_text fs p") (simp_all add: process_main_iflow_with_components_def)
  obtain doc where s2: "etree_fromstring L s = Some doc"
    using assms s1
    by (cases "etree_fromstring L s") (simp_all add: process_main_iflow_with_components_def)
  note s = s1 s2
  then consider "c = create_full_iflow_chunk L p s"
    | "c \<in> set (component_chunks L idx doc p)"
    | "c \<in> set (extract_message_flows L doc p)"
    | "c \<in> set (extract_sequence_flows L doc p)"
    | "c \<in> set (extract_processes L doc p)"
    | "c \<in> set (extract_subprocesses L doc p)"
    using assms by (auto simp: process_main_iflow_with_components_def)
  then show ?thesis
  proof cases
    case 1
    then show ?thesis by (simp add: create_full_iflow_chunk_def doc_keyed_def chunk_body_def)
  next
    case 2
    then show ?thesis using component_chunks_file_type[of c L idx doc p] by blast
  next
    case 3
    then show ?thesis
      using message_flows_loop_file_type[of c L doc p _ "[]"]
      by (auto simp: extract_message_flows_def)
  next
    case 4
    then show ?thesis
      using sequence_flows_loop_file_type[of c L doc p _ _ _ "[]"]
      by (auto simp: extract_sequence_flows_def)
  next
    case 5
    then show ?thesis
      using containers_loop_file_type[of c L p _ _ _ _ _ _ "{}" "[]"]
      by (auto simp: extract_processes_def)
  next
    case 6
    then show ?thesis
      using containers_loop_file_type[of c L p _ _ _ _ _ _ "{}" "[]"]
      by (auto simp: extract_subprocesses_def)
  qed
qed

lemma process_related_file_Some:
  assumes "fst (process_related_file L fs idx f ft) = Some c"
  shows "\<exists>s. read_text fs f = Some s \<and> c = related_file_chunk L f ft s"
  using assms
  by (auto simp: process_related_file_def Let_def split: if_splits option.splits)

lemma process_related_file_Some_type:
  assumes "fst (process_related_file L fs idx f ft) = Some c"
  shows "file_type c = ft \<and> component_id c = None \<and> file_keyed L f c"
proof -
  obtain s where "c = related_file_chunk L f ft s"
    using process_related_file_Some[OF assms] by blast
  then show ?thesis by (simp add: related_file_chunk_def file_keyed_def chunk_body_def)
qed

lemma process_related_file_None_indep:
  "(fst (process_related_file L fs idx f ft) = None) =
   (fst (process_related_file L' fs idx' f ft) = None)"
  by (auto simp: process_related_file_def Let_def split: if_splits option.splits)

lemma process_one_related_shape:
  "st_chunks (fst (process_one_related L fs ft acc f)) =
     st_chunks (fst acc) @
     (case fst (process_related_file L fs (st_script_index (fst acc)) f ft) of
        None \<Rightarrow> [] | Some c \<Rightarrow> [c])"
  "snd (process_one_related L fs ft acc f) =
     snd acc @
     (if fst (process_related_file L fs Map.empty f ft) = None then [] else [f])"
  "st_processed_files (fst (process_one_related L fs ft acc f)) = st_processed_files (fst acc)"
  using process_related_file_None_indep[of L fs "st_script_index (fst acc)" f ft L Map.empty]
  by (auto simp: process_one_related_def Let_def split: option.splits)

lemma foldl_process_one_related:
  "\<exists>cs. st_chunks (fst (foldl (process_one_related L fs ft) acc files)) = st_chunks (fst acc) @ cs \<and>
        (\<forall>c \<in> set cs. file_type c = ft \<and> component_id c = None \<and>
                       (\<exists>f \<in> set files. file_keyed L f c)) \<and>
        length cs = length (filter (\<lambda>f. fst (process_related_file L fs Map.empty f ft) \<noteq> None) files) \<and>
        snd (foldl (process_one_related L fs ft) acc files) =
          snd acc @ filter (\<lambda>f. fst (process_related_file L fs Map.empty f ft) \<noteq> None) files \<and>
        st_processed_files (fst (foldl (process_one_related L fs ft) acc files)) =
          st_processed_files (fst acc)"
proof (induction files arbitrary: acc)
  case Nil
  then show ?case by simp
next
  case (Cons f files)
  let ?acc' = "process_one_related L fs ft acc f"
  obtain cs where cs:
    "st_chunks (fst (foldl (process_one_related L fs ft) ?acc' files)) = st_chunks (fst ?acc') @ cs"
    "\<forall>c \<in> set cs. file_type c = ft \<and> component_id c = None \<and> (\<exists>f \<in> set files. file_keyed L f c)"
    "length cs = length (filter (\<lambda>f. fst (process_related_file L fs Map.empty f ft) \<noteq> None) files)"
    "snd (foldl (process_one_related L fs ft) ?acc' files) =
       snd ?acc' @ filter (\<lambda>f. fst (process_related_file L fs Map.empty f ft) \<noteq> None) files"
    "st_processed_files (fst (foldl (process_one_related L fs ft) ?acc' files)) =
       st_processed_files (fst ?acc')"
    using Cons.IH[of ?acc'] by blast
  let ?new = "case fst (process_related_file L fs (st_script_index (fst acc)) f ft) of
                None \<Rightarrow> [] | Some c \<Rightarrow> [c]"
  have new: "\<forall>c \<in> set ?new. file_type c = ft \<and> component_id c = None \<and> file_keyed L f c"
    using process_related_file_Some_type[of L fs "st_script_index (fst acc)" f ft]
    by (auto split: option.splits)
  have len: "length ?new = (if fst (process_related_file L fs Map.empty f ft) = None then 0 else 1)"
    using process_related_file_None_indep[of L fs "st_script_index (fst acc)" f ft L Map.empty]
    by (auto split: option.splits)
  show ?case
    apply (rule exI[of _ "?new @ cs"])
    using cs new len by (auto simp: process_one_related_shape)
qed

lemma process_all_related_files_shape:
  "\<exists>cs. st_chunks (fst (process_all_related_files L fs st af)) = st_chunks st @ cs \<and>
        (\<forall>c \<in> set cs. file_type c \<in> fst ` set af - {''main_iflow''} \<and> component_id c = None \<and>
                       (\<exists>f \<in> set (discovered af). file_keyed L f c)) \<and>
        length cs = length (snd (process_all_related_files L fs st af)) \<and>
        snd (process_all_related_files L fs st af) =
          concat (map (\<lambda>item. if fst item = ''main_iflow'' then []
                        else filter (\<lambda>f. fst (process_related_file L fs Map.empty f (fst item)) \<noteq> None)
                                    (snd item)) af) \<and>
        st_processed_files (fst (process_all_related_files L fs st af)) = st_processed_files st"
proof -
  let ?step = "\<lambda>acc item. if fst item = ''main_iflow'' then acc
                 else foldl (process_one_related L fs (fst item)) acc (snd item)"
  let ?g = "\<lambda>item. if fst item = ''main_iflow'' then []
                        else filter (\<lambda>f. fst (process_related_file L fs Map.empty f (fst item)) \<noteq> None)
                                    (snd item)"
  have "\<exists>cs. st_chunks (fst (foldl ?step acc af)) = st_chunks (fst acc) @ cs \<and>
        (\<forall>c \<in> set cs. file_type c \<in> fst ` set af - {''main_iflow''} \<and> component_id c = None \<and>
                       (\<exists>f \<in> set (discovered af). file_keyed L f c)) \<and>
        length cs = length (concat (map ?g af)) \<and>
        snd (foldl ?step acc af) = snd acc @ concat (map ?g af) \<and>
        st_processed_files (fst (foldl ?step acc af)) = st_processed_files (fst acc)" for acc
  proof (induction af arbitrary: acc)
    case Nil
    then show ?case by simp
  next
    case (Cons item af)
    let ?acc' = "?step acc item"
    obtain cs where cs:
      "st_chunks (fst (foldl ?step ?acc' af)) = st_chunks (fst ?acc') @ cs"
      "\<forall>c \<in> set cs. file_type c \<in> fst ` set af - {''main_iflow''} \<and> component_id c = None \<and>
         (\<exists>f \<in> set (discovered af). file_keyed L f c)"
      "length cs = length (concat (map ?g af))"
      "snd (foldl ?step ?acc' af) = snd ?acc' @ concat (map ?g af)"
      "st_processed_files (fst (foldl ?step ?acc' af)) = st_processed_files (fst ?acc')"
      using Cons.IH[of ?acc'] by blast
    obtain ds where ds:
      "st_chunks (fst ?acc') = st_chunks (fst acc) @ ds"
      "\<forall>c \<in> set ds. file_type c \<in> {fst item} - {''main_iflow''} \<and> component_id c = None \<and>
           (\<exists>f \<in> set (snd item). file_keyed L f c)"
      "length ds = length (?g item)"
      "snd ?acc' = snd acc @ ?g item"
      "st_processed_files (fst ?acc') = st_processed_files (fst acc)"
    proof (cases "fst item = ''main_iflow''")
      case True
      then show ?thesis using that[of "[]"] by simp
    next
      case False
      then show ?thesis
        using foldl_process_one_related[of L fs "fst item" acc "snd item"] that by auto
    qed
    have mem: "set (discovered (item # af)) = set (snd item) \<union> set (discovered af)"
      by (simp add: discovered_def)
    have all: "\<forall>c \<in> set (ds @ cs).
                 file_type c \<in> fst ` set (item # af) - {''main_iflow''} \<and> component_id c = None \<and>
                 (\<exists>f \<in> set (discovered (item # af)). file_keyed L f c)"
      unfolding mem using cs(2) ds(2) by auto
    show ?case
      apply (rule exI[of _ "ds @ cs"])
      using cs(1,3,4,5) ds(1,3,4,5) all by simp
  qed
  from this[of "(st, [])"] obtain cs where
    "st_chunks (fst (foldl ?step (st, []) af)) = st_chunks st @ cs"
    "\<forall>c \<in> set cs. file_type c \<in> fst ` set af - {''main_iflow''} \<and> component_id c = None \<and>
         (\<exists>f \<in> set (discovered af). file_keyed L f c)"
    "length cs = length (concat (map ?g af))"
    "snd (foldl ?step (st, []) af) = concat (map ?g af)"
    "st_processed_files (fst (foldl ?step (st, []) af)) = st_processed_files st"
    by auto
  then show ?thesis
    by (intro exI[of _ cs]) (simp add: process_all_related_files_def)
qed

lemma aux_keys:
  "fst ` set (discover_all_files fs) - {''main_iflow''} \<subseteq> set aux_categories"
proof -
  have "fst ` set (discover_all_files fs) = set (map fst empty_all_files)"
    using keys_discover_all_files[of fs] by (metis set_map)
  then show ?thesis
    by (auto simp: empty_all_files_def aux_categories_def)
qed

lemma run_chunks:
  "\<exists>cs. chunks (process_complete_iflow_package L fs) = main_iflow_chunks L fs @ cs \<and>
        (\<forall>c \<in> set cs. file_type c \<in> set aux_categories \<and> component_id c = None \<and>
                       (\<exists>f \<in> set (discovered (discover_all_files fs)). file_keyed L f c)) \<and>
        length cs = length (related_processed L fs (discover_all_files fs))"
proof -
  let ?af = "discover_all_files fs"
  let ?st0 = "new_chunker\<lparr>st_script_index := build_script_index Map.empty ?af\<rparr>"
  let ?st1 = "case find_main_iflow ?af of
                   None \<Rightarrow> ?st0
                 | Some p \<Rightarrow>
                     ?st0\<lparr>st_chunks :=
                           st_chunks ?st0 @
                           process_main_iflow_with_components L fs (st_script_index ?st0) p,
                         st_processed_files := st_processed_files ?st0 @ [p]\<rparr>"
  have st1: "st_chunks ?st1 = main_iflow_chunks L fs"
    by (simp add: main_iflow_chunks_def new_chunker_def split: option.splits)
  obtain cs where cs:
    "st_chunks (fst (process_all_related_files L fs ?st1 ?af)) = st_chunks ?st1 @ cs"
    "\<forall>c \<in> set cs. file_type c \<in> fst ` set ?af - {''main_iflow''} \<and> component_id c = None \<and>
                     (\<exists>f \<in> set (discovered ?af). file_keyed L f c)"
    "length cs = length (related_processed L fs ?af)"
    using process_all_related_files_shape[of L fs ?st1 ?af]
    unfolding related_processed_def by auto
  have "chunks (process_complete_iflow_package L fs) =
          st_chunks (fst (process_all_related_files L fs ?st1 ?af))"
    by (simp add: process_complete_iflow_package_def Let_def)
  then show ?thesis
    using cs st1 aux_keys[of fs] by (intro exI[of _ cs]) auto
qed

lemma run_coverage:
  "coverage (process_complete_iflow_package L fs) =
     verify_complete_coverage (processed_paths L fs) (discover_all_files fs)"
proof -
  let ?af = "discover_all_files fs"
  let ?st0 = "new_chunker\<lparr>st_script_index := build_script_index Map.empty ?af\<rparr>"
  let ?st1 = "case find_main_iflow ?af of
                   None \<Rightarrow> ?st0
                 | Some p \<Rightarrow>
                     ?st0\<lparr>st_chunks :=
                           st_chunks ?st0 @
                           process_main_iflow_with_components L fs (st_script_index ?st0) p,
                         st_processed_files := st_processed_files ?st0 @ [p]\<rparr>"
  have st1: "st_processed_files ?st1 = (case find_main_iflow ?af of None \<Rightarrow> [] | Some p \<Rightarrow> [p])"
    by (simp add: new_chunker_def split: option.splits)
  have "st_processed_files (fst (process_all_related_files L fs ?st1 ?af)) = st_processed_files ?st1"
    and "snd (process_all_related_files L fs ?st1 ?af) = related_processed L fs ?af"
    using process_all_related_files_shape[of L fs ?st1 ?af]
    by (auto simp: related_processed_def)
  then show ?thesis
    using st1
    by (simp add: process_complete_iflow_package_def Let_def processed_paths_def)
qed

lemma run_counts:
  "total_chunks (process_complete_iflow_package L fs) =
     length (chunks (process_complete_iflow_package L fs))"
  by (simp add: process_complete_iflow_package_def Let_def)

lemma main_iflow_chunks_parsed:
  assumes "find_main_iflow (discover_all_files fs) = Some p"
    and "read_text fs p = Some s" and "etree_fromstring L s = Some doc"
  shows "\<exists>rest. main_iflow_chunks L fs = create_full_iflow_chunk L p s # rest \<and>
           (\<forall>c \<in> set rest. file_type c \<in> {''bpmn'', ''bpmn_message_flow'', ''bpmn_sequence_flow''})"
proof -
  let ?idx = "build_script_index Map.empty (discover_all_files fs)"
  let ?rest = "component_chunks L ?idx doc p @ extract_message_flows L doc p @
               extract_sequence_flows L doc p @ extract_processes L doc p @
               extract_subprocesses L doc p"
  have m: "main_iflow_chunks L fs = create_full_iflow_chunk L p s # ?rest"
    using assms by (simp add: main_iflow_chunks_def process_main_iflow_with_components_def)
  have "file_type c \<in> {''bpmn'', ''bpmn_message_flow'', ''bpmn_sequence_flow''}"
    if "c \<in> set ?rest" for c
  proof -
    from that consider "c \<in> set (component_chunks L ?idx doc p)"
      | "c \<in> set (extract_message_flows L doc p)"
      | "c \<in> set (extract_sequence_flows L doc p)"
      | "c \<in> set (extract_processes L doc p)"
      | "c \<in> set (extract_subprocesses L doc p)"
      by auto
    then show ?thesis
    proof cases
      case 1
      then show ?thesis using component_chunks_file_type by blast
    next
      case 2
      then show ?thesis
        using message_flows_loop_file_type[of c L doc p _ "[]"]
        by (auto simp: extract_message_flows_def)
    next
      case 3
      then show ?thesis
        using sequence_flows_loop_file_type[of c L doc p _ _ _ "[]"]
        by (auto simp: extract_sequence_flows_def)
    next
      case 4
      then show ?thesis
        using containers_loop_file_type[of c L p _ _ _ _ _ _ "{}" "[]"]
        by (auto simp: extract_processes_def)
    next
      case 5
      then show ?thesis
        using containers_loop_file_type[of c L p _ _ _ _ _ _ "{}" "[]"]
        by (auto simp: extract_subprocesses_def)
    qed
  qed
  then show ?thesis using m by blast
qed

lemma main_iflow_chunks_unparsed:
  assumes "find_main_iflow (discover_all_files fs) = None \<or>
           (\<exists>p. find_main_iflow (discover_all_files fs) = Some p \<and>
                (read_text fs p = None \<or>
                 (\<exists>s. read_text fs p = Some s \<and> etree_fromstring L s = None)))"
  shows "main_iflow_chunks L fs = []"
  using assms
  by (auto simp: main_iflow_chunks_def process_main_iflow_with_components_def)

text \<open>
  C1. When the process-definition document is found, can be read and parses, the result
  of the run has exactly one chunk of file type \<^verbatim>\<open>bpmn_full_xml\<close>; its component id is
  \<^verbatim>\<open>full_xml\<close> and its content is the text of the document as it was read.
\<close>

theorem full_document_chunk_exactly_once:
  assumes "find_main_iflow (discover_all_files fs) = Some p"
    and "read_text fs p = Some s" and "etree_fromstring L s = Some doc"
  shows "\<exists>c. filter (\<lambda>c. file_type c = ''bpmn_full_xml'')
                     (chunks (process_complete_iflow_package L fs)) = [c] \<and>
             component_id c = Some ''full_xml'' \<and> content c = Some s"
proof -
  obtain rest where rest: "main_iflow_chunks L fs = create_full_iflow_chunk L p s # rest"
    "\<forall>c \<in> set rest. file_type c \<in> {''bpmn'', ''bpmn_message_flow'', ''bpmn_sequence_flow''}"
    using main_iflow_chunks_parsed[OF assms] by blast
  obtain cs where cs: "chunks (process_complete_iflow_package L fs) = main_iflow_chunks L fs @ cs"
    "\<forall>c \<in> set cs. file_type c \<in> set aux_categories \<and> component_id c = None"
    using run_chunks[of L fs] by blast
  have "filter (\<lambda>c. file_type c = ''bpmn_full_xml'') rest = []"
    using rest(2) by (auto simp: filter_empty_conv)
  moreover have "filter (\<lambda>c. file_type c = ''bpmn_full_xml'') cs = []"
    using cs(2) by (auto simp: filter_empty_conv aux_categories_def)
  ultimately have "filter (\<lambda>c. file_type c = ''bpmn_full_xml'')
                     (chunks (process_complete_iflow_package L fs)) = [create_full_iflow_chunk L p s]"
    by (simp add: cs(1) rest(1) create_full_iflow_chunk_def)
  then show ?thesis
    by (simp add: create_full_iflow_chunk_def)
qed

theorem full_document_chunk_exactly_once_witness:
  "find_main_iflow (discover_all_files (demo_fs [''flow.iflw'', ''Validate.gsh''] [])) =
     Some ([], ''flow.iflw'') \<and>
   read_text (demo_fs [''flow.iflw'', ''Validate.gsh''] []) ([], ''flow.iflw'') =
     Some ''<definitions/>'' \<and>
   etree_fromstring (demo_lib doc_one_flow) ''<definitions/>'' = Some doc_one_flow \<and>
   (\<exists>c. filter (\<lambda>c. file_type c = ''bpmn_full_xml'')
               (chunks (process_complete_iflow_package (demo_lib doc_one_flow)
                          (demo_fs [''flow.iflw'', ''Validate.gsh''] []))) = [c] \<and>
        component_id c = Some ''full_xml'' \<and> content c = Some ''<definitions/>'')"
proof -
  have m: "find_main_iflow (discover_all_files (demo_fs [''flow.iflw'', ''Validate.gsh''] [])) =
             Some ([], ''flow.iflw'')"
    by code_simp
  have r: "read_text (demo_fs [''flow.iflw'', ''Validate.gsh''] []) ([], ''flow.iflw'') =
             Some ''<definitions/>''"
    by code_simp
  have d: "etree_fromstring (demo_lib doc_one_flow) ''<definitions/>'' = Some doc_one_flow"
    by (simp add: demo_lib_def)
  show ?thesis
    using m r d full_document_chunk_exactly_once[OF m r d] by blast
qed

text \<open>
  C3, as the code has it. When the process-definition document is missing, or is found
  but cannot be read or parsed, the run takes no chunk from it; the run goes on: every
  chunk of the result is the chunk of an auxiliary file, and there is one for each
  auxiliary file that \<^verbatim>\<open>_process_related_file\<close> accepts.
\<close>

theorem no_document_chunks_without_parsed_document:
  assumes "find_main_iflow (discover_all_files fs) = None \<or>
           (\<exists>p. find_main_iflow (discover_all_files fs) = Some p \<and>
                (read_text fs p = None \<or>
                 (\<exists>s. read_text fs p = Some s \<and> etree_fromstring L s = None)))"
  shows "main_iflow_chunks L fs = [] \<and>
         (\<forall>c \<in> set (chunks (process_complete_iflow_package L fs)).
             file_type c \<in> set aux_categories \<and> component_id c = None) \<and>
         total_chunks (process_complete_iflow_package L fs) =
           length (related_processed L fs (discover_all_files fs))"
  using run_chunks[of L fs] main_iflow_chunks_unparsed[OF assms] run_counts[of L fs]
  by auto

theorem no_document_chunks_without_parsed_document_witness:
  "find_main_iflow (discover_all_files (demo_fs [''Validate.gsh''] [])) = None \<and>
   main_iflow_chunks (demo_lib Special) (demo_fs [''Validate.gsh''] []) = [] \<and>
   total_chunks (process_complete_iflow_package (demo_lib Special)
                   (demo_fs [''Validate.gsh''] [])) =
     length (related_processed (demo_lib Special) (demo_fs [''Validate.gsh''] [])
               (discover_all_files (demo_fs [''Validate.gsh''] []))) \<and>
   find_main_iflow (discover_all_files (demo_fs [''flow.iflw'', ''Validate.gsh''] [])) =
     Some ([], ''flow.iflw'') \<and>
   read_text (demo_fs [''flow.iflw'', ''Validate.gsh''] []) ([], ''flow.iflw'') =
     Some ''<definitions/>'' \<and>
   etree_fromstring no_parse_lib ''<definitions/>'' = None \<and>
   main_iflow_chunks no_parse_lib (demo_fs [''flow.iflw'', ''Validate.gsh''] []) = [] \<and>
   total_chunks (process_complete_iflow_package no_parse_lib
                   (demo_fs [''flow.iflw'', ''Validate.gsh''] [])) =
     length (related_processed no_parse_lib (demo_fs [''flow.iflw'', ''Validate.gsh''] [])
               (discover_all_files (demo_fs [''flow.iflw'', ''Validate.gsh''] [])))"
proof -
  have a: "find_main_iflow (discover_all_files (demo_fs [''Validate.gsh''] [])) = None"
    by code_simp
  have m: "find_main_iflow (discover_all_files (demo_fs [''flow.iflw'', ''Validate.gsh''] [])) =
             Some ([], ''flow.iflw'')"
    by code_simp
  have r: "read_text (demo_fs [''flow.iflw'', ''Validate.gsh''] []) ([], ''flow.iflw'') =
             Some ''<definitions/>''"
    by code_simp
  have d: "etree_fromstring no_parse_lib ''<definitions/>'' = None"
    by code_simp
  have b: "find_main_iflow (discover_all_files (demo_fs [''flow.iflw'', ''Validate.gsh''] [])) = None \<or>
           (\<exists>p. find_main_iflow (discover_all_files (demo_fs [''flow.iflw'', ''Validate.gsh''] [])) = Some p \<and>
                (read_text (demo_fs [''flow.iflw'', ''Validate.gsh''] []) p = None \<or>
                 (\<exists>s. read_text (demo_fs [''flow.iflw'', ''Validate.gsh''] []) p = Some s \<and>
                      etree_fromstring no_parse_lib s = None)))"
    using m r d by blast
  show ?thesis
    using a m r d
          no_document_chunks_without_parsed_document[OF disjI1[OF a], of "demo_lib Special"]
          no_document_chunks_without_parsed_document[OF b]
    by blast
qed

text \<open>
  The claim as written (the run aborts and returns no chunk at all) fails on a package
  with a script and no process-definition document, and on a package whose
  process-definition document does not parse: in both the result holds the chunk of the
  script.
\<close>

theorem auxiliary_chunks_without_document_counterexample:
  "find_main_iflow (discover_all_files (demo_fs [''Validate.gsh''] [])) = None \<and>
   map chunk_id (chunks (process_complete_iflow_package (demo_lib Special)
                           (demo_fs [''Validate.gsh''] []))) = [''Validate_groovy_scripts''] \<and>
   find_main_iflow (discover_all_files (demo_fs [''flow.iflw'', ''Validate.gsh''] [])) =
     Some ([], ''flow.iflw'') \<and>
   etree_fromstring no_parse_lib ''<definitions/>'' = None \<and>
   map chunk_id (chunks (process_complete_iflow_package no_parse_lib
                           (demo_fs [''flow.iflw'', ''Validate.gsh''] []))) =
     [''Validate_groovy_scripts'']"
  by code_simp

lemma find_main_iflow_in_bucket:
  assumes "find_main_iflow af = Some p"
  shows "p \<in> set (bucket af ''main_iflow'')"
  using assms by (auto simp: find_main_iflow_def split: list.splits)

lemma bucket_main_discover:
  "\<exists>rest. discover_all_files fs = (''main_iflow'', bucket (discover_all_files fs) ''main_iflow'') # rest"
  using discover_all_files_shape[of fs] by (auto simp: bucket_def)

text \<open>
  C10. When the process-definition document is found but cannot be read or parsed, it
  gives no chunk, yet it is in the list of processed files: the coverage report does not
  list it as missing and counts it as processed, overall and in its category.
\<close>

theorem unparsable_document_counted_as_processed:
  assumes m: "find_main_iflow (discover_all_files fs) = Some p"
    and u: "read_text fs p = None \<or> (\<exists>s. read_text fs p = Some s \<and> etree_fromstring L s = None)"
  shows "main_iflow_chunks L fs = [] \<and>
         p \<in> set (processed_paths L fs) \<and>
         p \<notin> set (missing_files (coverage (process_complete_iflow_package L fs))) \<and>
         1 \<le> total_files_processed (coverage (process_complete_iflow_package L fs)) \<and>
         (\<exists>b. map_of (file_type_breakdown (coverage (process_complete_iflow_package L fs)))
                      ''main_iflow'' = Some b \<and> 1 \<le> bd_processed b)"
proof -
  let ?af = "discover_all_files fs"
  let ?P = "processed_paths L fs"
  have cov: "coverage (process_complete_iflow_package L fs) = verify_complete_coverage ?P ?af"
    by (rule run_coverage)
  have pin: "p \<in> set ?P"
    using m by (simp add: processed_paths_def)
  have c1: "main_iflow_chunks L fs = []"
    using m u by (intro main_iflow_chunks_unparsed) auto
  have c3: "p \<notin> set (missing_files (verify_complete_coverage ?P ?af))"
    using pin by (auto simp: verify_complete_coverage_def)
  have c4: "1 \<le> total_files_processed (verify_complete_coverage ?P ?af)"
    using pin by (cases ?P) (auto simp: verify_complete_coverage_def)
  obtain rest where af: "?af = (''main_iflow'', bucket ?af ''main_iflow'') # rest"
    using bucket_main_discover[of fs] by blast
  have pb: "p \<in> set (bucket ?af ''main_iflow'')"
    using m by (rule find_main_iflow_in_bucket)
  have "map_of (file_type_breakdown (verify_complete_coverage ?P ?af)) ''main_iflow'' =
          Some (snd (category_breakdown ?P (''main_iflow'', bucket ?af ''main_iflow'')))"
    by (subst af) (simp add: verify_complete_coverage_def category_breakdown_def Let_def)
  moreover have "1 \<le> bd_processed (snd (category_breakdown ?P (''main_iflow'', bucket ?af ''main_iflow'')))"
  proof -
    have "p \<in> set (filter (\<lambda>f. f \<in> set ?P) (bucket ?af ''main_iflow''))"
      using pb pin by simp
    then have "0 < length (filter (\<lambda>f. f \<in> set ?P) (bucket ?af ''main_iflow''))"
      by (metis length_pos_if_in_set)
    then show ?thesis
      by (cases "filter (\<lambda>f. f \<in> set ?P) (bucket ?af ''main_iflow'')")
         (simp_all add: category_breakdown_def Let_def)
  qed
  ultimately show ?thesis
    using c1 pin c3 c4 cov by auto
qed

theorem unparsable_document_counted_as_processed_witness:
  "find_main_iflow (discover_all_files (demo_fs [''flow.iflw'', ''Validate.gsh''] [])) =
     Some ([], ''flow.iflw'') \<and>
   read_text (demo_fs [''flow.iflw'', ''Validate.gsh''] []) ([], ''flow.iflw'') =
     Some ''<definitions/>'' \<and>
   etree_fromstring no_parse_lib ''<definitions/>'' = None \<and>
   main_iflow_chunks no_parse_lib (demo_fs [''flow.iflw'', ''Validate.gsh''] []) = [] \<and>
   ([], ''flow.iflw'') \<notin> set (missing_files (coverage (process_complete_iflow_package
       no_parse_lib (demo_fs [''flow.iflw'', ''Validate.gsh''] [])))) \<and>
   1 \<le> total_files_processed (coverage (process_complete_iflow_package
       no_parse_lib (demo_fs [''flow.iflw'', ''Validate.gsh''] [])))"
proof -
  have m: "find_main_iflow (discover_all_files (demo_fs [''flow.iflw'', ''Validate.gsh''] [])) =
             Some ([], ''flow.iflw'')"
    by code_simp
  have r: "read_text (demo_fs [''flow.iflw'', ''Validate.gsh''] []) ([], ''flow.iflw'') =
             Some ''<definitions/>''"
    by code_simp
  have d: "etree_fromstring no_parse_lib ''<definitions/>'' = None"
    by code_simp
  have u: "read_text (demo_fs [''flow.iflw'', ''Validate.gsh''] []) ([], ''flow.iflw'') = None \<or>
           (\<exists>s. read_text (demo_fs [''flow.iflw'', ''Validate.gsh''] []) ([], ''flow.iflw'') = Some s \<and>
                etree_fromstring no_parse_lib s = None)"
    using r d by blast
  show ?thesis
    using m r d unparsable_document_counted_as_processed[OF m u] by blast
qed

section \<open>Properties of outgoing edges and flow chunks\<close>

lemma xpath_all_bpmn: "xpath_all doc ''bpmn'' nm = xpath_all doc ''bpmn2'' nm"
  by (simp add: xpath_all_def qname_def ns_uri_def)

lemma attr_is_SomeD:
  "CHR 0x22 \<notin> set lit \<Longrightarrow> attr_is L nss doc pfx nm a lit = Some r \<Longrightarrow>
     r = filter (\<lambda>n. get (snd n) a = Some lit) (xpath_step doc pfx nm)"
  by (simp add: attr_is_def)

lemma xpath_step_prefixed: "pfx \<noteq> [] \<Longrightarrow> xpath_step doc pfx nm = xpath_all doc pfx nm"
  by (simp add: xpath_step_def)

lemma add_unseen_inv:
  assumes "unseen_inv st"
  shows "unseen_inv (add_unseen st n) \<and> set (fst (add_unseen st n)) \<subseteq> insert n (set (fst st))"
proof (cases "get (snd n) ''id''")
  case None
  then show ?thesis using assms by (auto simp: add_unseen_def)
next
  case (Some i)
  show ?thesis
  proof (cases "i \<noteq> [] \<and> i \<notin> snd st")
    case False
    then show ?thesis using assms Some by (auto simp: add_unseen_def)
  next
    case True
    then have "Some i \<notin> (\<lambda>n. get (snd n) ''id'') ` set (fst st)"
      using assms by (auto simp: unseen_inv_def)
    then show ?thesis
      using assms Some True by (auto simp: add_unseen_def unseen_inv_def)
  qed
qed

lemma foldl_add_unseen_inv:
  "unseen_inv st \<Longrightarrow>
     unseen_inv (foldl add_unseen st ns) \<and>
     set (fst (foldl add_unseen st ns)) \<subseteq> set (fst st) \<union> set ns"
proof (induction ns arbitrary: st)
  case Nil
  then show ?case by simp
next
  case (Cons n ns)
  show ?case
    using add_unseen_inv[OF Cons.prems, of n] Cons.IH[of "add_unseen st n"]
    by auto
qed

lemma outgoing_flows_props:
  assumes "extract_component_elements L cid doc = Some ce" and q: "CHR 0x22 \<notin> set cid"
  shows "distinct (map (\<lambda>n. get (snd n) ''id'') (outgoing_flows ce)) \<and>
         (\<forall>n \<in> set (outgoing_flows ce).
             n \<in> set (xpath_all doc ''bpmn2'' ''sequenceFlow'') \<and>
             get (snd n) ''sourceRef'' = Some cid \<and>
             (\<exists>i. get (snd n) ''id'' = Some i))"
proof -
  obtain out2 out1 where
    o2: "attr_is L bpmn_namespaces doc ''bpmn2'' ''sequenceFlow'' ''sourceRef'' cid = Some out2" and
    o1: "attr_is L bpmn_namespaces doc ''bpmn'' ''sequenceFlow'' ''sourceRef'' cid = Some out1" and
    og: "outgoing_flows ce = fst (foldl add_unseen (foldl add_unseen ([], {}) out2) out1)"
    using assms(1)
    by (auto simp: extract_component_elements_def Let_def split: Option.bind_splits)
  have e: "unseen_inv ([], {})" by (simp add: unseen_inv_def)
  note i2 = foldl_add_unseen_inv[OF e, of out2]
  note i1 = foldl_add_unseen_inv[OF i2[THEN conjunct1], of out1]
  have sub: "set (outgoing_flows ce) \<subseteq> set out2 \<union> set out1"
    using i1 i2 og by auto
  have "set out2 \<union> set out1 \<subseteq>
          {n \<in> set (xpath_all doc ''bpmn2'' ''sequenceFlow''). get (snd n) ''sourceRef'' = Some cid}"
    using attr_is_SomeD[OF q o2] attr_is_SomeD[OF q o1]
    by (auto simp: xpath_all_bpmn xpath_step_prefixed)
  then show ?thesis
    using sub i1 og by (auto simp: unseen_inv_def)
qed

lemma component_chunk_edges:
  assumes "create_component_chunk L idx cid doc p = Some c" and q: "CHR 0x22 \<notin> set cid"
  shows "\<exists>conns.
           component_id c = Some cid \<and> connections c = Some conns \<and>
           map_option (map fd_id) (sequence_flows c) = Some conns \<and>
           distinct conns \<and>
           (\<forall>x \<in> set conns. \<exists>i n.
               x = Some i \<and> n \<in> set (xpath_all doc ''bpmn2'' ''sequenceFlow'') \<and>
               get (snd n) ''id'' = Some i \<and> get (snd n) ''sourceRef'' = Some cid)"
proof -
  obtain ce where ce: "extract_component_elements L cid doc = Some ce"
    and cid: "component_id c = Some cid"
    and conns: "connections c = Some (map (\<lambda>flow. get (snd flow) ''id'') (outgoing_flows ce))"
    and flows: "sequence_flows c = Some (map outgoing_flow_data (outgoing_flows ce))"
    using create_component_chunk_SomeD[OF assms(1)] by blast
  let ?conns = "map (\<lambda>flow. get (snd flow) ''id'') (outgoing_flows ce)"
  have "map fd_id (map outgoing_flow_data (outgoing_flows ce)) = ?conns"
    by (simp add: outgoing_flow_data_def)
  then have sf: "map_option (map fd_id) (sequence_flows c) = Some ?conns"
    using flows by simp
  have d: "distinct ?conns"
    using outgoing_flows_props[OF ce q] by simp
  have "\<exists>i n. x = Some i \<and> n \<in> set (xpath_all doc ''bpmn2'' ''sequenceFlow'') \<and>
               get (snd n) ''id'' = Some i \<and> get (snd n) ''sourceRef'' = Some cid"
    if xin: "x \<in> set ?conns" for x
  proof -
    obtain n where n: "n \<in> set (outgoing_flows ce)" "x = get (snd n) ''id''"
      using xin unfolding set_map by blast
    have p: "n \<in> set (xpath_all doc ''bpmn2'' ''sequenceFlow'')"
      "get (snd n) ''sourceRef'' = Some cid" "\<exists>i. get (snd n) ''id'' = Some i"
      using outgoing_flows_props[OF ce q] n(1) by blast+
    then obtain i where i: "get (snd n) ''id'' = Some i" by blast
    show ?thesis
      using n(2) p(1,2) i by (intro exI[of _ i] exI[of _ n]) simp
  qed
  then have "\<forall>x \<in> set ?conns. \<exists>i n.
               x = Some i \<and> n \<in> set (xpath_all doc ''bpmn2'' ''sequenceFlow'') \<and>
               get (snd n) ''id'' = Some i \<and> get (snd n) ''sourceRef'' = Some cid"
    by blast
  then show ?thesis
    using cid conns sf d by (intro exI[of _ ?conns]) simp
qed

lemma one_source:
  assumes "flow_ids_have_one_source doc"
    and "n \<in> set (xpath_all doc ''bpmn2'' ''sequenceFlow'')"
    and "m \<in> set (xpath_all doc ''bpmn2'' ''sequenceFlow'')"
    and "get (snd n) ''id'' = get (snd m) ''id''"
  shows "get (snd n) ''sourceRef'' = get (snd m) ''sourceRef''"
proof -
  have "\<forall>n \<in> set (xpath_all doc ''bpmn2'' ''sequenceFlow'').
          \<forall>m \<in> set (xpath_all doc ''bpmn2'' ''sequenceFlow'').
            get (snd n) ''id'' = get (snd m) ''id'' \<longrightarrow>
            get (snd n) ''sourceRef'' = get (snd m) ''sourceRef''"
    using assms(1) unfolding flow_ids_have_one_source_def list_all_iff .
  then show ?thesis
    using assms(2,3,4) by (elim ballE[of _ _ n] ballE[of _ _ m]) (rule mp, assumption+, simp_all)
qed

text \<open>
  The outgoing lists of a document in which no component id has a double quote. For a
  component chunk of a run: its \<^verbatim>\<open>connections\<close> list and the ids of its \<^verbatim>\<open>sequence_flows\<close>
  are the same list; no id is in it twice; every entry is the id of a sequence-flow
  element of the document whose \<^verbatim>\<open>sourceRef\<close> is the id of the component; and, when sequence
  flows that share an id also share their source (as they do when ids are unique), no
  entry is in the list of another component chunk of the run.
\<close>

lemma plain_component_idsD:
  "plain_component_ids doc \<Longrightarrow> cid \<in> set (extract_all_component_ids doc) \<Longrightarrow>
     CHR 0x22 \<notin> set cid"
  unfolding plain_component_ids_def list_all_iff by blast

lemma plain_ids_outgoing_edges:
  assumes "c \<in> set (component_chunks L idx doc p)" and plain: "plain_component_ids doc"
  shows "\<exists>cid conns.
           component_id c = Some cid \<and> connections c = Some conns \<and>
           map_option (map fd_id) (sequence_flows c) = Some conns \<and>
           distinct conns \<and>
           (\<forall>x \<in> set conns. \<exists>i n.
               x = Some i \<and> n \<in> set (xpath_all doc ''bpmn2'' ''sequenceFlow'') \<and>
               get (snd n) ''id'' = Some i \<and> get (snd n) ''sourceRef'' = Some cid) \<and>
           (flow_ids_have_one_source doc \<longrightarrow>
              (\<forall>c' \<in> set (component_chunks L idx doc p). c' \<noteq> c \<longrightarrow>
                 (\<forall>conns'. connections c' = Some conns' \<longrightarrow> set conns \<inter> set conns' = {})))"
proof -
  obtain cid where cl: "cid \<in> set (extract_all_component_ids doc)"
    and cr: "create_component_chunk L idx cid doc p = Some c"
    using assms(1) by (rule component_chunks_cases)
  note q = plain_component_idsD[OF plain cl]
  obtain conns where conns:
    "component_id c = Some cid" "connections c = Some conns"
    "map_option (map fd_id) (sequence_flows c) = Some conns" "distinct conns"
    "\<forall>x \<in> set conns. \<exists>i n.
        x = Some i \<and> n \<in> set (xpath_all doc ''bpmn2'' ''sequenceFlow'') \<and>
        get (snd n) ''id'' = Some i \<and> get (snd n) ''sourceRef'' = Some cid"
    using component_chunk_edges[OF cr q] by blast
  have "set conns \<inter> set conns' = {}"
    if one: "flow_ids_have_one_source doc"
      and c': "c' \<in> set (component_chunks L idx doc p)" "c' \<noteq> c"
      and cs': "connections c' = Some conns'" for c' conns'
  proof (rule ccontr)
    assume "set conns \<inter> set conns' \<noteq> {}"
    then obtain x where x: "x \<in> set conns" "x \<in> set conns'" by auto
    obtain cid' where cl': "cid' \<in> set (extract_all_component_ids doc)"
      and cr': "create_component_chunk L idx cid' doc p = Some c'"
      using c'(1) by (rule component_chunks_cases)
    note q' = plain_component_idsD[OF plain cl']
    obtain conns'' where conns'':
      "connections c' = Some conns''"
      "\<forall>x \<in> set conns''. \<exists>i n.
        x = Some i \<and> n \<in> set (xpath_all doc ''bpmn2'' ''sequenceFlow'') \<and>
        get (snd n) ''id'' = Some i \<and> get (snd n) ''sourceRef'' = Some cid'"
      using component_chunk_edges[OF cr' q'] by blast
    then have eq: "conns'' = conns'" using cs' by simp
    obtain i n where n: "x = Some i" "n \<in> set (xpath_all doc ''bpmn2'' ''sequenceFlow'')"
      "get (snd n) ''id'' = Some i" "get (snd n) ''sourceRef'' = Some cid"
      using conns(5) x(1) by blast
    obtain j m where m: "x = Some j" "m \<in> set (xpath_all doc ''bpmn2'' ''sequenceFlow'')"
      "get (snd m) ''id'' = Some j" "get (snd m) ''sourceRef'' = Some cid'"
      using conns''(2) x(2) eq by blast
    have "get (snd n) ''sourceRef'' = get (snd m) ''sourceRef''"
      using one_source[OF one n(2) m(2)] n(1,3) m(1,3) by simp
    then have "cid = cid'" using n(4) m(4) by simp
    then have "c' = c" using cr cr' by simp
    then show False using c'(2) by simp
  qed
  then have "flow_ids_have_one_source doc \<longrightarrow>
              (\<forall>c' \<in> set (component_chunks L idx doc p). c' \<noteq> c \<longrightarrow>
                 (\<forall>conns'. connections c' = Some conns' \<longrightarrow> set conns \<inter> set conns' = {}))"
    by blast
  then show ?thesis
    using conns by (intro exI[of _ cid] exI[of _ conns] conjI) assumption+
qed

text \<open>Every recognised element below the root that has an id gets its id listed.\<close>

lemma add_component_id_mono: "set ids \<subseteq> set (add_component_id ids n)"
  by (auto simp: add_component_id_def split: option.splits)

lemma foldl_add_component_id_mono: "set ids \<subseteq> set (foldl add_component_id ids ns)"
proof (induction ns arbitrary: ids)
  case Nil
  then show ?case by simp
next
  case (Cons n ns)
  show ?case
    using add_component_id_mono[of ids n] Cons.IH[of "add_component_id ids n"] by auto
qed

lemma foldl_add_component_id_mem:
  "n \<in> set ns \<Longrightarrow> get (snd n) ''id'' = Some i \<Longrightarrow> i \<noteq> [] \<Longrightarrow>
     i \<in> set (foldl add_component_id ids ns)"
proof (induction ns arbitrary: ids)
  case Nil
  then show ?case by simp
next
  case (Cons m ns)
  show ?case
  proof (cases "n = m")
    case True
    then have "i \<in> set (add_component_id ids m)"
      using Cons.prems by (auto simp: add_component_id_def)
    then show ?thesis
      using foldl_add_component_id_mono[of "add_component_id ids m" ns] by auto
  next
    case False
    then show ?thesis using Cons by auto
  qed
qed

lemma component_id_listed:
  assumes "ct \<in> set component_types"
    and "n \<in> set (xpath_below doc ''bpmn2'' ct)"
    and "get (snd n) ''id'' = Some i" and "i \<noteq> []"
  shows "i \<in> set (extract_all_component_ids doc)"
proof -
  let ?inner = "\<lambda>ids component_type.
              foldl (\<lambda>ids ns. foldl add_component_id ids (xpath_below doc ns component_type))
                    ids [''bpmn2'', ''bpmn'']"
  have mono: "set ids \<subseteq> set (?inner ids t)" for ids t
    using foldl_add_component_id_mono[of ids "xpath_below doc ''bpmn2'' t"]
          foldl_add_component_id_mono[of "foldl add_component_id ids (xpath_below doc ''bpmn2'' t)"
                                         "xpath_below doc ''bpmn'' t"]
    by auto
  have mono_all: "set ids \<subseteq> set (foldl ?inner ids ts)" for ids ts
  proof (induction ts arbitrary: ids)
    case Nil
    then show ?case by simp
  next
    case (Cons t ts)
    show ?case using mono[of ids t] Cons.IH[of "?inner ids t"] by auto
  qed
  have hit: "i \<in> set (?inner ids ct)" for ids
    using foldl_add_component_id_mem[OF assms(2,3,4), of ids]
          foldl_add_component_id_mono[of "foldl add_component_id ids (xpath_below doc ''bpmn2'' ct)"
                                         "xpath_below doc ''bpmn'' ct"]
    by auto
  have "ct \<in> set ts \<Longrightarrow> i \<in> set (foldl ?inner ids ts)" for ids ts
  proof (induction ts arbitrary: ids)
    case Nil
    then show ?case by simp
  next
    case (Cons t ts)
    show ?case
    proof (cases "t = ct")
      case True
      then show ?thesis using hit[of ids] mono_all[of "?inner ids ct" ts] by auto
    next
      case False
      then show ?thesis using Cons by auto
    qed
  qed
  from this[OF assms(1), of "[]"] show ?thesis
    by (simp add: extract_all_component_ids_def)
qed

lemma component_chunk_listed:
  assumes "ct \<in> set component_types"
    and "n \<in> set (xpath_below doc ''bpmn2'' ct)"
    and "get (snd n) ''id'' = Some i" and "i \<noteq> []"
    and "create_component_chunk L idx i doc p = Some c"
  shows "c \<in> set (component_chunks L idx doc p)"
  using component_id_listed[OF assms(1-4)] assms(5)
  by (force simp: component_chunks_def map_filter_def)

lemma component_chunk_listed':
  assumes "ct \<in> set component_types"
    and "list_ex (\<lambda>n. get (snd n) ''id'' = Some i) (xpath_below doc ''bpmn2'' ct)"
    and "i \<noteq> []"
    and "create_component_chunk L idx i doc p = Some c"
  shows "c \<in> set (component_chunks L idx doc p)"
proof -
  obtain n where "n \<in> set (xpath_below doc ''bpmn2'' ct)" "get (snd n) ''id'' = Some i"
    using assms(2) unfolding list_ex_iff by blast
  then show ?thesis
    using component_chunk_listed[OF assms(1) _ _ assms(3,4)] by blast
qed

lemma plain_ids_outgoing_edges_example:
  "\<exists>c. c \<in> set (component_chunks (demo_lib doc_one_flow) Map.empty doc_one_flow
                     ([], ''flow.iflw'')) \<and>
       plain_component_ids doc_one_flow \<and>
       flow_ids_have_one_source doc_one_flow \<and>
       component_id c = Some ''S1'' \<and>
       (\<exists>conns. connections c = Some conns \<and>
          map_option (map fd_id) (sequence_flows c) = Some conns \<and> distinct conns)"
proof -
  have "create_component_chunk (demo_lib doc_one_flow) Map.empty ''S1'' doc_one_flow
          ([], ''flow.iflw'') \<noteq> None"
    by code_simp
  then obtain c where c:
    "create_component_chunk (demo_lib doc_one_flow) Map.empty ''S1'' doc_one_flow
       ([], ''flow.iflw'') = Some c"
    by blast
  have t: "''startEvent'' \<in> set component_types"
    by code_simp
  have n: "list_ex (\<lambda>n. get (snd n) ''id'' = Some ''S1'')
                   (xpath_below doc_one_flow ''bpmn2'' ''startEvent'')"
    by code_simp
  have i: "''S1'' \<noteq> []" by simp
  have one: "flow_ids_have_one_source doc_one_flow"
    by code_simp
  have plain: "plain_component_ids doc_one_flow"
    by code_simp
  have cin: "c \<in> set (component_chunks (demo_lib doc_one_flow) Map.empty doc_one_flow
                     ([], ''flow.iflw''))"
    using component_chunk_listed'[OF t n i c] .
  have cid: "component_id c = Some ''S1''"
    using create_component_chunk_SomeD[OF c] by blast
  show ?thesis
    using cin one plain cid plain_ids_outgoing_edges[OF cin plain] by (intro exI[of _ c]) auto
qed

text \<open>
  Also without a double quote in any id, one flow id can be in two outgoing lists: in a
  document in which two sequence flows carry the same id and leave different components,
  the id is in the list of both chunks.
\<close>

lemma shared_flow_id_in_two_components:
  "map (\<lambda>c. (component_id c, connections c))
       (component_chunks (demo_lib doc_shared_flow_id) Map.empty doc_shared_flow_id
          ([], ''flow.iflw'')) =
     [(Some ''A'', Some [Some ''F'']), (Some ''B'', Some [Some ''F''])]"
  by code_simp

lemma run_bpmn_chunks:
  assumes "find_main_iflow (discover_all_files fs) = Some p"
    and "read_text fs p = Some s" and "etree_fromstring L s = Some doc"
  shows "filter (\<lambda>c. file_type c = ''bpmn'') (chunks (process_complete_iflow_package L fs)) =
         component_chunks L (build_script_index Map.empty (discover_all_files fs)) doc p @
         extract_processes L doc p @ extract_subprocesses L doc p"
proof -
  let ?P = "\<lambda>c. file_type c = ''bpmn''"
  let ?idx = "build_script_index Map.empty (discover_all_files fs)"
  obtain cs where cs: "chunks (process_complete_iflow_package L fs) = main_iflow_chunks L fs @ cs"
    "\<forall>c \<in> set cs. file_type c \<in> set aux_categories \<and> component_id c = None"
    using run_chunks[of L fs] by blast
  have m: "main_iflow_chunks L fs =
             create_full_iflow_chunk L p s # component_chunks L ?idx doc p @
             extract_message_flows L doc p @ extract_sequence_flows L doc p @
             extract_processes L doc p @ extract_subprocesses L doc p"
    using assms by (simp add: main_iflow_chunks_def process_main_iflow_with_components_def)
  have 1: "filter ?P (component_chunks L ?idx doc p) = component_chunks L ?idx doc p"
    using component_chunks_file_type[of _ L ?idx doc p] by (auto simp: filter_id_conv)
  have 2: "filter ?P (extract_message_flows L doc p) = []"
    using message_flows_loop_file_type[of _ L doc p _ "[]"]
    by (auto simp: filter_empty_conv extract_message_flows_def)
  have 3: "filter ?P (extract_sequence_flows L doc p) = []"
    using sequence_flows_loop_file_type[of _ L doc p _ _ _ "[]"]
    by (auto simp: filter_empty_conv extract_sequence_flows_def)
  have 4: "filter ?P (extract_processes L doc p) = extract_processes L doc p"
    using containers_loop_file_type[of _ L p _ _ _ _ _ _ "{}" "[]"]
    by (auto simp: filter_id_conv extract_processes_def)
  have 5: "filter ?P (extract_subprocesses L doc p) = extract_subprocesses L doc p"
    using containers_loop_file_type[of _ L p _ _ _ _ _ _ "{}" "[]"]
    by (auto simp: filter_id_conv extract_subprocesses_def)
  have 6: "filter ?P cs = []"
    using cs(2) by (auto simp: filter_empty_conv aux_categories_def)
  have 7: "\<not> ?P (create_full_iflow_chunk L p s)"
    by (simp add: create_full_iflow_chunk_def)
  show ?thesis
    unfolding cs(1) m using 1 2 3 4 5 6 7 by simp
qed

text \<open>
  C4 at a document whose first start event has the id \<^verbatim>\<open>x" or "1"="1\<close> and whose only
  sequence flow \<^verbatim>\<open>G\<close> has the \<^verbatim>\<open>sourceRef\<close> \<^verbatim>\<open>B\<close>, the id of the second start event: the
  chunks of file type \<^verbatim>\<open>bpmn\<close> the run returns are a component chunk for each of the two
  ids (the document has no process element), and \<^verbatim>\<open>G\<close> is in the outgoing list of both. \<^verbatim>\<open>_extract_component_elements\<close> pastes the component id into the query text; the
  query \<^verbatim>\<open>//bpmn2:sequenceFlow[@sourceRef="x" or "1"="1"]\<close> that results selects every
  sequence flow of the document, whatever its source.
\<close>

theorem quoted_component_id_lists_foreign_flow:
  "map (\<lambda>c. (component_id c, connections c))
       (filter (\<lambda>c. file_type c = ''bpmn'')
          (chunks (process_complete_iflow_package (demo_lib doc_quoted_id)
                     (demo_fs [''flow.iflw''] [])))) =
     [(Some quoted_id, Some [Some ''G'']), (Some ''B'', Some [Some ''G''])] \<and>
   map (\<lambda>n. (get (snd n) ''id'', get (snd n) ''sourceRef''))
       (xpath_all doc_quoted_id ''bpmn2'' ''sequenceFlow'') = [(Some ''G'', Some ''B'')]"
proof -
  have m: "find_main_iflow (discover_all_files (demo_fs [''flow.iflw''] [])) =
             Some ([], ''flow.iflw'')"
    by code_simp
  have r: "read_text (demo_fs [''flow.iflw''] []) ([], ''flow.iflw'') = Some ''<definitions/>''"
    by code_simp
  have d: "etree_fromstring (demo_lib doc_quoted_id) ''<definitions/>'' = Some doc_quoted_id"
    by (simp add: demo_lib_def)
  have c: "map (\<lambda>c. (component_id c, connections c))
             (component_chunks (demo_lib doc_quoted_id)
                (build_script_index Map.empty (discover_all_files (demo_fs [''flow.iflw''] [])))
                doc_quoted_id ([], ''flow.iflw'')) =
           [(Some quoted_id, Some [Some ''G'']), (Some ''B'', Some [Some ''G''])]"
    by code_simp
  have p: "extract_processes (demo_lib doc_quoted_id) doc_quoted_id ([], ''flow.iflw'') = []"
    by code_simp
  have sp: "extract_subprocesses (demo_lib doc_quoted_id) doc_quoted_id ([], ''flow.iflw'') = []"
    by code_simp
  have f: "map (\<lambda>n. (get (snd n) ''id'', get (snd n) ''sourceRef''))
             (xpath_all doc_quoted_id ''bpmn2'' ''sequenceFlow'') = [(Some ''G'', Some ''B'')]"
    by code_simp
  show ?thesis
    using c f by (simp only: run_bpmn_chunks[OF m r d] p sp append_Nil2)
qed

lemma run_sequence_flow_chunks:
  assumes "find_main_iflow (discover_all_files fs) = Some p"
    and "read_text fs p = Some s" and "etree_fromstring L s = Some doc"
  shows "filter (\<lambda>c. file_type c = ''bpmn_sequence_flow'')
                (chunks (process_complete_iflow_package L fs)) =
         extract_sequence_flows L doc p"
proof -
  let ?P = "\<lambda>c. file_type c = ''bpmn_sequence_flow''"
  let ?idx = "build_script_index Map.empty (discover_all_files fs)"
  obtain cs where cs: "chunks (process_complete_iflow_package L fs) = main_iflow_chunks L fs @ cs"
    "\<forall>c \<in> set cs. file_type c \<in> set aux_categories \<and> component_id c = None"
    using run_chunks[of L fs] by blast
  have m: "main_iflow_chunks L fs =
             create_full_iflow_chunk L p s # component_chunks L ?idx doc p @
             extract_message_flows L doc p @ extract_sequence_flows L doc p @
             extract_processes L doc p @ extract_subprocesses L doc p"
    using assms by (simp add: main_iflow_chunks_def process_main_iflow_with_components_def)
  have 1: "filter ?P (component_chunks L ?idx doc p) = []"
    using component_chunks_file_type[of _ L ?idx doc p] by (auto simp: filter_empty_conv)
  have 2: "filter ?P (extract_message_flows L doc p) = []"
    using message_flows_loop_file_type[of _ L doc p _ "[]"]
    by (auto simp: filter_empty_conv extract_message_flows_def)
  have 3: "filter ?P (extract_sequence_flows L doc p) = extract_sequence_flows L doc p"
    using sequence_flows_loop_file_type[of _ L doc p _ _ _ "[]"]
    by (auto simp: filter_id_conv extract_sequence_flows_def)
  have 4: "filter ?P (extract_processes L doc p) = []"
    using containers_loop_file_type[of _ L p _ _ _ _ _ _ "{}" "[]"]
    by (auto simp: filter_empty_conv extract_processes_def)
  have 5: "filter ?P (extract_subprocesses L doc p) = []"
    using containers_loop_file_type[of _ L p _ _ _ _ _ _ "{}" "[]"]
    by (auto simp: filter_empty_conv extract_subprocesses_def)
  have 6: "filter ?P cs = []"
    using cs(2) by (auto simp: filter_empty_conv aux_categories_def)
  have 7: "\<not> ?P (create_full_iflow_chunk L p s)"
    by (simp add: create_full_iflow_chunk_def)
  show ?thesis
    unfolding cs(1) m using 1 2 3 4 5 6 7 by simp
qed

text \<open>
  C2 at a document with one sequence flow \<^verbatim>\<open>F1\<close>: the run returns two sequence-flow
  chunks, both with the id \<^verbatim>\<open>flow_F1\<close>. \<^verbatim>\<open>_extract_sequence_flows\<close> runs its query once
  for the prefix \<^verbatim>\<open>bpmn2\<close> and once for the prefix \<^verbatim>\<open>bpmn\<close>, which name the same
  namespace, and keeps no set of the ids it has seen.
\<close>

theorem sequence_flow_chunked_twice:
  "map chunk_id (filter (\<lambda>c. file_type c = ''bpmn_sequence_flow'')
       (chunks (process_complete_iflow_package (demo_lib doc_one_flow)
                  (demo_fs [''flow.iflw''] [])))) = [''flow_F1'', ''flow_F1'']"
proof -
  have m: "find_main_iflow (discover_all_files (demo_fs [''flow.iflw''] [])) =
             Some ([], ''flow.iflw'')"
    by code_simp
  have r: "read_text (demo_fs [''flow.iflw''] []) ([], ''flow.iflw'') = Some ''<definitions/>''"
    by code_simp
  have d: "etree_fromstring (demo_lib doc_one_flow) ''<definitions/>'' = Some doc_one_flow"
    by (simp add: demo_lib_def)
  have "map chunk_id (extract_sequence_flows (demo_lib doc_one_flow) doc_one_flow
                        ([], ''flow.iflw'')) = [''flow_F1'', ''flow_F1'']"
    by code_simp
  then show ?thesis
    by (simp only: run_sequence_flow_chunks[OF m r d])
qed

section \<open>Properties of the coverage report\<close>

lemma distinct_iff_count_le_1: "distinct xs = (\<forall>x. count_list xs x \<le> 1)"
proof (induction xs)
  case Nil
  then show ?case by simp
next
  case (Cons a xs)
  show ?case
  proof
    assume d: "distinct (a # xs)"
    then have "count_list xs a = 0" by (simp add: count_list_0_iff)
    then show "\<forall>x. count_list (a # xs) x \<le> 1"
      using d Cons.IH by auto
  next
    assume c: "\<forall>x. count_list (a # xs) x \<le> 1"
    then have "count_list xs a = 0"
      using spec[OF c, of a] by simp
    moreover have "\<forall>x. count_list xs x \<le> 1"
    proof
      fix x show "count_list xs x \<le> 1"
        using spec[OF c, of x] by (simp split: if_splits)
    qed
    ultimately show "distinct (a # xs)"
      using Cons.IH by (simp add: count_list_0_iff)
  qed
qed

lemma count_discovered_Cons:
  "count_list (discovered (item # af)) x = count_list (snd item) x + count_list (discovered af) x"
  by (simp add: discovered_def)

lemma bucket_append_absent:
  "key \<notin> fst ` set af \<Longrightarrow> bucket_append key p af = af"
  by (induction af) (auto simp: bucket_append_def)

lemma count_bucket_append:
  "distinct (map fst af) \<Longrightarrow>
     count_list (discovered (bucket_append key p af)) x \<le>
       count_list (discovered af) x + (if x = p then 1 else 0)"
proof (induction af)
  case Nil
  then show ?case by (simp add: bucket_append_def discovered_def)
next
  case (Cons item af)
  obtain k ps where item: "item = (k, ps)" by (cases item)
  show ?case
  proof (cases "k = key")
    case True
    then have "key \<notin> fst ` set af" using Cons.prems item by auto
    then have "bucket_append key p (item # af) = (k, ps @ [p]) # af"
      using True item bucket_append_absent[of key af p] by (simp add: bucket_append_def)
    then show ?thesis
      by (simp add: count_discovered_Cons item)
  next
    case False
    then have "bucket_append key p (item # af) = item # bucket_append key p af"
      using item by (simp add: bucket_append_def)
    then show ?thesis
      using Cons by (simp add: count_discovered_Cons)
  qed
qed

lemma discover_file_cases:
  "discover_file fs d af file = af \<or>
   (\<exists>key. discover_file fs d af file = bucket_append key (d, file) af)"
  unfolding discover_file_def Let_def
  by (simp split: option.splits) blast

lemma count_discover_file:
  assumes "distinct (map fst af)"
  shows "count_list (discovered (discover_file fs d af file)) x \<le>
           count_list (discovered af) x + (if x = (d, file) then 1 else 0)"
proof -
  consider "discover_file fs d af file = af"
    | key where "discover_file fs d af file = bucket_append key (d, file) af"
    using discover_file_cases[of fs d af "file"] by blast
  then show ?thesis
  proof cases
    case 1
    then show ?thesis by simp
  next
    case 2
    then show ?thesis
      using count_bucket_append[OF assms, of key "(d, file)" x] by simp
  qed
qed

lemma count_discover_dir:
  "distinct (map fst af) \<Longrightarrow>
   count_list (discovered (foldl (discover_file fs d) af files)) x \<le>
     count_list (discovered af) x + count_list (map (Pair d) files) x"
proof (induction files arbitrary: af)
  case Nil
  then show ?case by simp
next
  case (Cons f files)
  have k: "distinct (map fst (discover_file fs d af f))"
    using Cons.prems by (simp add: keys_discover_file)
  show ?case
    using Cons.IH[OF k] count_discover_file[OF Cons.prems, of fs d f x]
    by (auto split: if_splits)
qed

lemma count_discover_walk:
  "distinct (map fst af) \<Longrightarrow>
   count_list (discovered (foldl (discover_dir fs) af w)) x \<le>
     count_list (discovered af) x +
     count_list (concat (map (\<lambda>entry. map (Pair (fst entry)) (snd entry)) w)) x"
proof (induction w arbitrary: af)
  case Nil
  then show ?case by simp
next
  case (Cons e w)
  have k: "distinct (map fst (discover_dir fs af e))"
    using Cons.prems by (simp add: keys_discover_dir)
  show ?case
    using Cons.IH[OF k] count_discover_dir[OF Cons.prems, of fs "fst e" "snd e" x]
    by (simp add: discover_dir_def)
qed

lemma distinct_keys_empty: "distinct (map fst empty_all_files)"
  by (simp add: empty_all_files_def)

lemma distinct_keys_discover: "distinct (map fst (discover_all_files fs))"
  by (simp add: keys_discover_all_files distinct_keys_empty)

lemma distinct_discovered:
  assumes "distinct (walk_paths (tree fs))"
  shows "distinct (discovered (discover_all_files fs))"
proof -
  have "count_list (discovered (discover_all_files fs)) x \<le> 1" for x
  proof -
    have "count_list (discovered (discover_all_files fs)) x \<le>
            count_list (discovered empty_all_files) x + count_list (walk_paths (tree fs)) x"
      using count_discover_walk[OF distinct_keys_empty, of fs "os_walk [] (tree fs)" x]
      by (simp add: discover_all_files_def walk_paths_def)
    moreover have "count_list (walk_paths (tree fs)) x \<le> 1"
      using assms[unfolded distinct_iff_count_le_1] by (rule spec)
    ultimately show ?thesis by (simp add: discovered_empty)
  qed
  then show ?thesis by (simp add: distinct_iff_count_le_1)
qed

lemma count_filter_le: "count_list (filter Q xs) x \<le> count_list xs x"
  by (induction xs) auto

lemma count_related_processed:
  "count_list (related_processed L fs af) x \<le>
     count_list (discovered (filter (\<lambda>item. fst item \<noteq> ''main_iflow'') af)) x"
proof (induction af)
  case Nil
  then show ?case by (simp add: related_processed_def discovered_def)
next
  case (Cons item af)
  have r: "related_processed L fs (item # af) =
             (if fst item = ''main_iflow'' then []
              else filter (\<lambda>f. fst (process_related_file L fs Map.empty f (fst item)) \<noteq> None)
                          (snd item)) @ related_processed L fs af"
    by (simp add: related_processed_def)
  show ?case
  proof (cases "fst item = ''main_iflow''")
    case True
    then show ?thesis using Cons r by simp
  next
    case False
    then show ?thesis
      using Cons r
            count_filter_le[of "\<lambda>f. fst (process_related_file L fs Map.empty f (fst item)) \<noteq> None"
                               "snd item" x]
      by (simp add: count_discovered_Cons)
  qed
qed

lemma count_processed_paths:
  "count_list (processed_paths L fs) x \<le> count_list (discovered (discover_all_files fs)) x"
proof -
  let ?af = "discover_all_files fs"
  obtain b0 rest where af: "?af = (''main_iflow'', b0) # rest"
    and keys: "map fst rest = [''groovy_scripts'', ''xsd_files'', ''message_mappings'', ''wsdl_files'',
                      ''properties_files'', ''xslt_files'', ''json_files'', ''manifest_files'']"
    using discover_all_files_shape[of fs] by auto
  have "\<forall>item \<in> set rest. fst item \<noteq> ''main_iflow''"
  proof
    fix item assume "item \<in> set rest"
    then have "fst item \<in> set (map fst rest)" by simp
    then show "fst item \<noteq> ''main_iflow''" unfolding keys by auto
  qed
  then have f: "filter (\<lambda>item. fst item \<noteq> ''main_iflow'') ?af = rest"
    unfolding af by (simp add: filter_id_conv)
  have rel: "count_list (related_processed L fs ?af) x \<le> count_list (discovered rest) x"
    using count_related_processed[of L fs ?af x] f by simp
  have main: "count_list (case find_main_iflow ?af of None \<Rightarrow> [] | Some p \<Rightarrow> [p]) x \<le> count_list b0 x"
  proof (cases b0)
    case Nil
    then show ?thesis by (simp add: af find_main_iflow_def bucket_def)
  next
    case (Cons p ps)
    then show ?thesis by (simp add: af find_main_iflow_def bucket_def)
  qed
  have "count_list (discovered ?af) x = count_list b0 x + count_list (discovered rest) x"
    unfolding af by (simp add: count_discovered_Cons)
  then show ?thesis
    using rel main by (simp add: processed_paths_def)
qed

lemma processed_paths_distinct_subset:
  assumes "distinct (walk_paths (tree fs))"
  shows "distinct (processed_paths L fs)"
    and "set (processed_paths L fs) \<subseteq> set (discovered (discover_all_files fs))"
proof -
  have d: "\<forall>x. count_list (discovered (discover_all_files fs)) x \<le> 1"
    using distinct_discovered[OF assms] unfolding distinct_iff_count_le_1 .
  have "count_list (processed_paths L fs) x \<le> 1" for x
    using count_processed_paths[of L fs x] spec[OF d, of x] by linarith
  then show "distinct (processed_paths L fs)"
    unfolding distinct_iff_count_le_1 by blast
  show "set (processed_paths L fs) \<subseteq> set (discovered (discover_all_files fs))"
  proof
    fix x assume "x \<in> set (processed_paths L fs)"
    then have "count_list (processed_paths L fs) x \<noteq> 0"
      by (simp add: count_list_0_iff)
    then have "count_list (discovered (discover_all_files fs)) x \<noteq> 0"
      using count_processed_paths[of L fs x] by linarith
    then show "x \<in> set (discovered (discover_all_files fs))"
      by (simp add: count_list_0_iff)
  qed
qed

lemma missing_files_filter:
  "missing_files (verify_complete_coverage P af) = filter (\<lambda>f. f \<notin> set P) (discovered af)"
  by (simp add: verify_complete_coverage_def discovered_def filter_concat comp_def)

lemma total_discovered_length:
  "total_files_discovered (verify_complete_coverage P af) = length (discovered af)"
  by (simp add: verify_complete_coverage_def discovered_def length_concat comp_def)

lemma length_filter_mem:
  assumes "distinct D" "distinct P" "set P \<subseteq> set D"
  shows "length (filter (\<lambda>f. f \<in> set P) D) = length P"
proof -
  have "length (filter (\<lambda>f. f \<in> set P) D) = card ({x. x \<in> set P} \<inter> set D)"
    using assms(1) by (rule distinct_length_filter)
  also have "{x. x \<in> set P} \<inter> set D = set P" using assms(3) by auto
  also have "card (set P) = length P" using assms(2) by (rule distinct_card)
  finally show ?thesis .
qed

lemma processed_plus_missing:
  assumes "distinct D" "distinct P" "set P \<subseteq> set D"
  shows "length P + length (filter (\<lambda>f. f \<notin> set P) D) = length D"
  using sum_length_filter_compl[of "\<lambda>f. f \<in> set P" D] length_filter_mem[OF assms]
  by simp

lemma percentage_100: "p \<le> t \<Longrightarrow> (percentage p t = 100) = (p = t)"
  by (auto simp: percentage_def field_simps)

lemma category_counts:
  assumes D: "distinct (discovered af)" and item: "(cat, B) \<in> set af"
  shows "length (filter (\<lambda>f. f \<in> set P) B) +
         length (filter (\<lambda>f. f \<in> set B) (filter (\<lambda>f. f \<notin> set P) (discovered af))) = length B"
proof -
  have B: "distinct B" "set B \<subseteq> set (discovered af)"
    using D item by (auto simp: discovered_def distinct_concat_iff)
  have "length (filter (\<lambda>f. f \<in> set B) (filter (\<lambda>f. f \<notin> set P) (discovered af))) =
        length (filter (\<lambda>f. f \<notin> set P \<and> f \<in> set B) (discovered af))"
    by simp
  also have "\<dots> = card ({x. x \<notin> set P \<and> x \<in> set B} \<inter> set (discovered af))"
    using D by (rule distinct_length_filter)
  also have "{x. x \<notin> set P \<and> x \<in> set B} \<inter> set (discovered af) = {x. x \<notin> set P} \<inter> set B"
    using B(2) by auto
  also have "card ({x. x \<notin> set P} \<inter> set B) = length (filter (\<lambda>f. f \<notin> set P) B)"
    using distinct_length_filter[OF B(1), of "\<lambda>f. f \<notin> set P"] by simp
  finally show ?thesis
    using sum_length_filter_compl[of "\<lambda>f. f \<in> set P" B] by simp
qed

text \<open>
  C5. On a package in which the walk reports no path twice, the coverage report of a run
  satisfies: for every category, the processed count plus the number of the category's
  files in the missing-files list is the category's total; overall, the processed count
  plus the length of the missing-files list is the number of discovered files; and the
  overall percentage is 100 exactly when the missing-files list is empty. The percentage
  is the exact quotient.
\<close>

theorem coverage_report_invariants:
  assumes "distinct (walk_paths (tree fs))"
  shows
    "(\<forall>entry \<in> set (file_type_breakdown (coverage (process_complete_iflow_package L fs))).
        bd_total (snd entry) = length (bucket (discover_all_files fs) (fst entry)) \<and>
        bd_processed (snd entry) +
          length (filter (\<lambda>f. f \<in> set (bucket (discover_all_files fs) (fst entry)))
                         (missing_files (coverage (process_complete_iflow_package L fs)))) =
        bd_total (snd entry)) \<and>
     map fst (file_type_breakdown (coverage (process_complete_iflow_package L fs))) =
       map fst (discover_all_files fs) \<and>
     total_files_discovered (coverage (process_complete_iflow_package L fs)) =
       length (discovered (discover_all_files fs)) \<and>
     total_files_processed (coverage (process_complete_iflow_package L fs)) +
       length (missing_files (coverage (process_complete_iflow_package L fs))) =
     total_files_discovered (coverage (process_complete_iflow_package L fs)) \<and>
     (coverage_percentage (coverage (process_complete_iflow_package L fs)) = 100) =
       (missing_files (coverage (process_complete_iflow_package L fs)) = [])"
proof -
  let ?af = "discover_all_files fs"
  let ?P = "processed_paths L fs"
  let ?D = "discovered ?af"
  let ?r = "verify_complete_coverage ?P ?af"
  have cov: "coverage (process_complete_iflow_package L fs) = ?r"
    by (rule run_coverage)
  have D: "distinct ?D" using distinct_discovered[OF assms] .
  have P: "distinct ?P" "set ?P \<subseteq> set ?D"
    using processed_paths_distinct_subset[OF assms] by auto
  have miss: "missing_files ?r = filter (\<lambda>f. f \<notin> set ?P) ?D"
    by (rule missing_files_filter)
  have tot: "total_files_discovered ?r = length ?D"
    by (rule total_discovered_length)
  have proc: "total_files_processed ?r = length ?P"
    by (simp add: verify_complete_coverage_def)
  have sum: "length ?P + length (missing_files ?r) = length ?D"
    unfolding miss using processed_plus_missing[OF D P] .
  have 1: "\<forall>entry \<in> set (file_type_breakdown ?r).
        bd_total (snd entry) = length (bucket ?af (fst entry)) \<and>
        bd_processed (snd entry) +
          length (filter (\<lambda>f. f \<in> set (bucket ?af (fst entry))) (missing_files ?r)) =
        bd_total (snd entry)"
  proof
    fix entry assume "entry \<in> set (file_type_breakdown ?r)"
    then obtain item where item: "item \<in> set ?af" "entry = category_breakdown ?P item"
      by (auto simp: verify_complete_coverage_def)
    obtain cat B where cb: "item = (cat, B)" by (cases item)
    have "map_of ?af cat = Some B"
      using item(1) cb distinct_keys_discover[of fs] by (simp add: map_of_is_SomeI)
    then have b: "bucket ?af cat = B" by (simp add: bucket_def)
    have e: "fst entry = cat" "bd_total (snd entry) = length B"
      "bd_processed (snd entry) = length (filter (\<lambda>f. f \<in> set ?P) B)"
      using item(2) cb by (simp_all add: category_breakdown_def Let_def)
    show "bd_total (snd entry) = length (bucket ?af (fst entry)) \<and>
        bd_processed (snd entry) +
          length (filter (\<lambda>f. f \<in> set (bucket ?af (fst entry))) (missing_files ?r)) =
        bd_total (snd entry)"
      using category_counts[OF D, of cat B ?P] item(1) cb
      by (simp add: e b miss)
  qed
  have 2: "map fst (file_type_breakdown ?r) = map fst ?af"
    by (simp add: verify_complete_coverage_def category_breakdown_def Let_def comp_def)
  have le: "length ?P \<le> length ?D" using sum by linarith
  have "coverage_percentage ?r = percentage (length ?P) (length ?D)"
    by (simp add: verify_complete_coverage_def discovered_def length_concat comp_def)
  then have 5: "(coverage_percentage ?r = 100) = (missing_files ?r = [])"
    using percentage_100[OF le] sum by auto
  show ?thesis
    unfolding cov using 1 2 tot proc sum 5 by simp
qed

theorem coverage_report_invariants_witness:
  "distinct (walk_paths (tree (demo_fs [''flow.iflw'', ''Validate.gsh'', ''b.iflw''] []))) \<and>
   total_files_processed (coverage (process_complete_iflow_package no_parse_lib
       (demo_fs [''flow.iflw'', ''Validate.gsh'', ''b.iflw''] []))) +
     length (missing_files (coverage (process_complete_iflow_package no_parse_lib
       (demo_fs [''flow.iflw'', ''Validate.gsh'', ''b.iflw''] [])))) =
   total_files_discovered (coverage (process_complete_iflow_package no_parse_lib
       (demo_fs [''flow.iflw'', ''Validate.gsh'', ''b.iflw''] []))) \<and>
   missing_files (coverage (process_complete_iflow_package no_parse_lib
       (demo_fs [''flow.iflw'', ''Validate.gsh'', ''b.iflw''] []))) = [([], ''b.iflw'')] \<and>
   coverage_percentage (coverage (process_complete_iflow_package no_parse_lib
       (demo_fs [''flow.iflw'', ''Validate.gsh'', ''b.iflw''] []))) \<noteq> 100"
proof -
  have d: "distinct (walk_paths (tree (demo_fs [''flow.iflw'', ''Validate.gsh'', ''b.iflw''] [])))"
    by code_simp
  have m: "missing_files (coverage (process_complete_iflow_package no_parse_lib
       (demo_fs [''flow.iflw'', ''Validate.gsh'', ''b.iflw''] []))) = [([], ''b.iflw'')]"
    by code_simp
  show ?thesis
    using d m coverage_report_invariants[OF d, of no_parse_lib] by simp
qed

section \<open>Two runs over one package\<close>

text \<open>Nothing but the process and subprocess descriptions depends on the description generator.\<close>

lemma sig16_gen [simp]: "sig16 (L\<lparr>embedding_generator := g\<rparr>) = sig16 L"
  by (rule ext) (simp add: sig16_def)

lemma build_complete_component_xml_gen [simp]:
  "build_complete_component_xml (L\<lparr>embedding_generator := g\<rparr>) ce =
   build_complete_component_xml L ce"
  by (simp add: build_complete_component_xml_def cong: option.case_cong)

lemma extract_activity_type_gen [simp]:
  "extract_activity_type (L\<lparr>embedding_generator := g\<rparr>) e = extract_activity_type L e"
proof -
  have "is_activity_type_property (L\<lparr>embedding_generator := g\<rparr>) = is_activity_type_property L"
    by (rule ext) (simp add: is_activity_type_property_def)
  then show ?thesis by (simp add: extract_activity_type_def)
qed

lemma resolve_component_script_files_gen [simp]:
  "resolve_component_script_files (L\<lparr>embedding_generator := g\<rparr>) idx props x =
   resolve_component_script_files L idx props x"
  by (simp add: resolve_component_script_files_def script_candidates_def)

lemma attr_is_gen [simp]:
  "attr_is (L\<lparr>embedding_generator := g\<rparr>) nss doc pfx nm a lit = attr_is L nss doc pfx nm a lit"
  by (simp add: attr_is_def split: option.splits)

lemma collect_edges_gen [simp]:
  "collect_edges (L\<lparr>embedding_generator := g\<rparr>) doc ids st = collect_edges L doc ids st"
  by (induction L doc ids st rule: collect_edges.induct) (simp_all split: option.splits)

lemma extract_component_elements_gen [simp]:
  "extract_component_elements (L\<lparr>embedding_generator := g\<rparr>) cid doc =
   extract_component_elements L cid doc"
  by (simp add: extract_component_elements_def)

lemma create_component_chunk_gen [simp]:
  "create_component_chunk (L\<lparr>embedding_generator := g\<rparr>) idx cid doc p =
   create_component_chunk L idx cid doc p"
  by (simp add: create_component_chunk_def cong: if_cong)

lemma component_chunks_gen [simp]:
  "component_chunks (L\<lparr>embedding_generator := g\<rparr>) idx doc p = component_chunks L idx doc p"
  by (simp add: component_chunks_def)

lemma message_flow_chunk_gen [simp]:
  "message_flow_chunk (L\<lparr>embedding_generator := g\<rparr>) p flow i edges =
   message_flow_chunk L p flow i edges"
  by (simp add: message_flow_chunk_def flow_content_def)

lemma sequence_flow_chunk_gen [simp]:
  "sequence_flow_chunk (L\<lparr>embedding_generator := g\<rparr>) p flow i sp tp edges =
   sequence_flow_chunk L p flow i sp tp edges"
  by (simp add: sequence_flow_chunk_def flow_content_def)

lemma message_flows_loop_gen [simp]:
  "message_flows_loop (L\<lparr>embedding_generator := g\<rparr>) doc p flows acc =
   message_flows_loop L doc p flows acc"
  by (induction flows arbitrary: acc) (simp_all add: Let_def split: option.splits)

lemma sequence_flows_loop_gen [simp]:
  "sequence_flows_loop (L\<lparr>embedding_generator := g\<rparr>) doc p p2p ep flows acc =
   sequence_flows_loop L doc p p2p ep flows acc"
  by (induction flows arbitrary: acc) (simp_all add: Let_def split: option.splits)

lemma create_full_iflow_chunk_gen [simp]:
  "create_full_iflow_chunk (L\<lparr>embedding_generator := g\<rparr>) p s = create_full_iflow_chunk L p s"
  by (simp add: create_full_iflow_chunk_def)

lemma clean_process_xml_gen [simp]:
  "clean_process_xml (L\<lparr>embedding_generator := g\<rparr>) x = clean_process_xml L x"
  by (simp add: clean_process_xml_def format_xml_with_indentation_def)

lemma container_chunk_gen:
  "same_but_description (container_chunk (L\<lparr>embedding_generator := g\<rparr>) p kind tk labels ctype c i)
                        (container_chunk L p kind tk labels ctype c i)"
  by (simp add: same_but_description_def container_chunk_def Let_def)

lemma same_but_description_refl [simp]: "same_but_description c c"
  by (simp add: same_but_description_def)

lemma containers_loop_gen:
  "list_all2 same_but_description acc' acc \<Longrightarrow>
   list_all2 same_but_description
     (containers_loop (L\<lparr>embedding_generator := g\<rparr>) p kind tk labels ctype dflt cs seen acc')
     (containers_loop L p kind tk labels ctype dflt cs seen acc)"
proof (induction cs arbitrary: seen acc acc')
  case Nil
  then show ?case by simp
next
  case (Cons c cs)
  show ?case
  proof (cases "or_default (get (snd c) ''id'') dflt \<in> seen")
    case True
    then show ?thesis using Cons by (simp add: Let_def)
  next
    case False
    have "list_all2 same_but_description
            (acc' @ [container_chunk (L\<lparr>embedding_generator := g\<rparr>) p kind tk labels ctype c
                       (or_default (get (snd c) ''id'') dflt)])
            (acc @ [container_chunk L p kind tk labels ctype c
                       (or_default (get (snd c) ''id'') dflt)])"
      using Cons.prems container_chunk_gen by (simp add: list_all2_appendI)
    then show ?thesis
      using False Cons.IH by (simp add: Let_def)
  qed
qed

lemma process_related_file_gen [simp]:
  "process_related_file (L\<lparr>embedding_generator := g\<rparr>) fs idx f ft =
   process_related_file L fs idx f ft"
proof -
  have e: "related_file_chunk (L\<lparr>embedding_generator := g\<rparr>) = related_file_chunk L"
    by (intro ext) (simp add: related_file_chunk_def)
  show ?thesis unfolding process_related_file_def e by (rule refl)
qed

lemma same_but_description_keys:
  assumes "same_but_description c c'"
  shows "chunk_id c = chunk_id c'" and "signature c = signature c'"
    and "file_type c = file_type c'" and "component_id c = component_id c'"
    and "chunk_body c = chunk_body c'"
proof -
  have e: "c\<lparr>description := []\<rparr> = c'\<lparr>description := []\<rparr>"
    using assms by (simp add: same_but_description_def)
  show "chunk_id c = chunk_id c'" using arg_cong[OF e, of chunk_id] by simp
  show "signature c = signature c'" using arg_cong[OF e, of signature] by simp
  show "file_type c = file_type c'" using arg_cong[OF e, of file_type] by simp
  show "component_id c = component_id c'" using arg_cong[OF e, of component_id] by simp
  show "chunk_body c = chunk_body c'"
    using arg_cong[OF e, of content] arg_cong[OF e, of complete_bpmn_xml]
    by (simp add: chunk_body_def cong: option.case_cong)
qed

lemma list_all2_same_refl [simp]: "list_all2 same_but_description xs xs"
  by (simp add: list_all2_same)

lemma process_main_gen:
  "list_all2 same_but_description
     (process_main_iflow_with_components (L\<lparr>embedding_generator := g\<rparr>) fs idx p)
     (process_main_iflow_with_components L fs idx p)"
proof (cases "read_text fs p")
  case None
  then show ?thesis by (simp add: process_main_iflow_with_components_def)
next
  case (Some s)
  show ?thesis
  proof (cases "etree_fromstring L s")
    case None
    then show ?thesis using Some by (simp add: process_main_iflow_with_components_def)
  next
    case (Some doc)
    have p: "list_all2 same_but_description
               (extract_processes (L\<lparr>embedding_generator := g\<rparr>) doc p)
               (extract_processes L doc p)"
      unfolding extract_processes_def by (rule containers_loop_gen) simp
    have q: "list_all2 same_but_description
               (extract_subprocesses (L\<lparr>embedding_generator := g\<rparr>) doc p)
               (extract_subprocesses L doc p)"
      unfolding extract_subprocesses_def by (rule containers_loop_gen) simp
    show ?thesis
      using \<open>read_text fs p = Some s\<close> Some p q
      by (simp add: process_main_iflow_with_components_def extract_message_flows_def
            extract_sequence_flows_def list_all2_appendI)
  qed
qed

lemma process_one_related_rel:
  assumes "same_but_descriptions st' st"
  shows "same_but_descriptions (fst (process_one_related (L\<lparr>embedding_generator := g\<rparr>) fs ft (st', acc) f))
                               (fst (process_one_related L fs ft (st, acc) f)) \<and>
         snd (process_one_related (L\<lparr>embedding_generator := g\<rparr>) fs ft (st', acc) f) =
         snd (process_one_related L fs ft (st, acc) f)"
  using assms
  by (cases "fst (process_related_file L fs (st_script_index st) f ft)")
     (simp_all add: process_one_related_def same_but_descriptions_def Let_def list_all2_appendI)

lemma foldl_process_one_related_rel:
  assumes "same_but_descriptions (fst a') (fst a)" "snd a' = snd a"
  shows "same_but_descriptions
           (fst (foldl (process_one_related (L\<lparr>embedding_generator := g\<rparr>) fs ft) a' files))
           (fst (foldl (process_one_related L fs ft) a files)) \<and>
         snd (foldl (process_one_related (L\<lparr>embedding_generator := g\<rparr>) fs ft) a' files) =
         snd (foldl (process_one_related L fs ft) a files)"
  using assms
proof (induction files arbitrary: a a')
  case Nil
  then show ?case by simp
next
  case (Cons f files)
  obtain st' acc' where a': "a' = (st', acc')" by (cases a')
  obtain st acc where a: "a = (st, acc)" by (cases a)
  have "acc' = acc" "same_but_descriptions st' st"
    using Cons.prems a a' by auto
  then have "same_but_descriptions (fst (process_one_related (L\<lparr>embedding_generator := g\<rparr>) fs ft a' f))
                               (fst (process_one_related L fs ft a f)) \<and>
         snd (process_one_related (L\<lparr>embedding_generator := g\<rparr>) fs ft a' f) =
         snd (process_one_related L fs ft a f)"
    using process_one_related_rel[where st'=st' and st=st and L=L and g=g and fs=fs and ft=ft
                                         and acc=acc and f=f] a a' by simp
  then show ?case
    using Cons.IH by simp
qed

lemma process_all_related_files_rel:
  assumes "same_but_descriptions st' st"
  shows "same_but_descriptions
           (fst (process_all_related_files (L\<lparr>embedding_generator := g\<rparr>) fs st' af))
           (fst (process_all_related_files L fs st af)) \<and>
         snd (process_all_related_files (L\<lparr>embedding_generator := g\<rparr>) fs st' af) =
         snd (process_all_related_files L fs st af)"
proof -
  let ?step' = "\<lambda>acc item. if fst item = ''main_iflow'' then acc
                 else foldl (process_one_related (L\<lparr>embedding_generator := g\<rparr>) fs (fst item)) acc (snd item)"
  let ?step = "\<lambda>acc item. if fst item = ''main_iflow'' then acc
                 else foldl (process_one_related L fs (fst item)) acc (snd item)"
  have "same_but_descriptions (fst a') (fst a) \<Longrightarrow> snd a' = snd a \<Longrightarrow>
        same_but_descriptions (fst (foldl ?step' a' af)) (fst (foldl ?step a af)) \<and>
        snd (foldl ?step' a' af) = snd (foldl ?step a af)" for a a'
  proof (induction af arbitrary: a a')
    case Nil
    then show ?case by simp
  next
    case (Cons item af)
    have "same_but_descriptions (fst (?step' a' item)) (fst (?step a item)) \<and>
          snd (?step' a' item) = snd (?step a item)"
      using Cons.prems
            foldl_process_one_related_rel[OF Cons.prems, where L=L and g=g and fs=fs
                                             and ft="fst item" and files="snd item"]
      by simp
    then show ?case
      using Cons.IH[of "?step' a' item" "?step a item"] by simp
  qed
  from this[of "(st', [])" "(st, [])"] assms show ?thesis
    by (simp add: process_all_related_files_def)
qed

lemma run_gen:
  "list_all2 same_but_description
     (chunks (process_complete_iflow_package (L\<lparr>embedding_generator := g\<rparr>) fs))
     (chunks (process_complete_iflow_package L fs))"
proof -
  let ?af = "discover_all_files fs"
  let ?st0 = "new_chunker\<lparr>st_script_index := build_script_index Map.empty ?af\<rparr>"
  let ?st1 = "\<lambda>L. case find_main_iflow ?af of
                   None \<Rightarrow> ?st0
                 | Some p \<Rightarrow>
                     ?st0\<lparr>st_chunks :=
                           st_chunks ?st0 @
                           process_main_iflow_with_components L fs (st_script_index ?st0) p,
                         st_processed_files := st_processed_files ?st0 @ [p]\<rparr>"
  have r: "same_but_descriptions (?st1 (L\<lparr>embedding_generator := g\<rparr>)) (?st1 L)"
    using process_main_gen[where L=L and g=g and fs=fs]
    by (simp add: same_but_descriptions_def new_chunker_def split: option.splits)
  have "same_but_descriptions
           (fst (process_all_related_files (L\<lparr>embedding_generator := g\<rparr>) fs
                   (?st1 (L\<lparr>embedding_generator := g\<rparr>)) ?af))
           (fst (process_all_related_files L fs (?st1 L) ?af))"
    using process_all_related_files_rel[OF r] by simp
  then show ?thesis
    by (simp add: process_complete_iflow_package_def Let_def same_but_descriptions_def)
qed

lemma keys_of_same:
  "list_all2 same_but_description xs ys \<Longrightarrow>
     map (\<lambda>c. (chunk_id c, signature c)) xs = map (\<lambda>c. (chunk_id c, signature c)) ys"
  by (induction rule: list_all2_induct) (simp_all add: same_but_description_keys)

lemma main_iflow_chunks_keyed:
  assumes "c \<in> set (main_iflow_chunks L fs)"
  shows "\<exists>p. find_main_iflow (discover_all_files fs) = Some p \<and> doc_keyed L p c"
proof (cases "find_main_iflow (discover_all_files fs)")
  case None
  then show ?thesis using assms by (simp add: main_iflow_chunks_def)
next
  case (Some p)
  then have "c \<in> set (process_main_iflow_with_components L fs
                (build_script_index Map.empty (discover_all_files fs)) p)"
    using assms by (simp add: main_iflow_chunks_def)
  then show ?thesis
    using main_iflow_chunks_file_type Some by blast
qed

text \<open>
  C8. The only thing a run takes from outside the package is the description generator,
  and a file path enters a chunk only relative to the package root. Two runs over the
  same package with any two description generators return chunk lists with the same ids
  and signatures, position by position. Every chunk's signature is the truncated hash of
  its body, and its id is the stem of the process-definition document followed by the
  element or flow id, or, for an auxiliary file, the stem of that file followed by the
  file type.
\<close>

theorem run_ids_and_signatures_deterministic:
  "map (\<lambda>c. (chunk_id c, signature c))
       (chunks (process_complete_iflow_package (L\<lparr>embedding_generator := g1\<rparr>) fs)) =
   map (\<lambda>c. (chunk_id c, signature c))
       (chunks (process_complete_iflow_package (L\<lparr>embedding_generator := g2\<rparr>) fs)) \<and>
   (\<forall>c \<in> set (chunks (process_complete_iflow_package L fs)).
       (\<exists>p. find_main_iflow (discover_all_files fs) = Some p \<and> doc_keyed L p c) \<or>
       (\<exists>f \<in> set (discovered (discover_all_files fs)). file_keyed L f c))"
proof
  show "map (\<lambda>c. (chunk_id c, signature c))
       (chunks (process_complete_iflow_package (L\<lparr>embedding_generator := g1\<rparr>) fs)) =
   map (\<lambda>c. (chunk_id c, signature c))
       (chunks (process_complete_iflow_package (L\<lparr>embedding_generator := g2\<rparr>) fs))"
    using keys_of_same[OF run_gen[where L=L and g=g1 and fs=fs]]
          keys_of_same[OF run_gen[where L=L and g=g2 and fs=fs]]
    by simp
  obtain cs where cs:
    "chunks (process_complete_iflow_package L fs) = main_iflow_chunks L fs @ cs"
    "\<forall>c \<in> set cs. file_type c \<in> set aux_categories \<and> component_id c = None \<and>
                    (\<exists>f \<in> set (discovered (discover_all_files fs)). file_keyed L f c)"
    using run_chunks[of L fs] by blast
  show "\<forall>c \<in> set (chunks (process_complete_iflow_package L fs)).
       (\<exists>p. find_main_iflow (discover_all_files fs) = Some p \<and> doc_keyed L p c) \<or>
       (\<exists>f \<in> set (discovered (discover_all_files fs)). file_keyed L f c)"
  proof
    fix c assume "c \<in> set (chunks (process_complete_iflow_package L fs))"
    then consider "c \<in> set (main_iflow_chunks L fs)" | "c \<in> set cs"
      unfolding cs(1) by auto
    then show "(\<exists>p. find_main_iflow (discover_all_files fs) = Some p \<and> doc_keyed L p c) \<or>
       (\<exists>f \<in> set (discovered (discover_all_files fs)). file_keyed L f c)"
    proof cases
      case 1
      then show ?thesis using main_iflow_chunks_keyed by blast
    next
      case 2
      then show ?thesis using cs(2) by blast
    qed
  qed
qed

theorem run_ids_and_signatures_deterministic_witness:
  "\<exists>c. c \<in> set (chunks (process_complete_iflow_package (demo_lib doc_one_flow)
                          (demo_fs [''flow.iflw'', ''Validate.gsh''] []))) \<and>
       chunk_id c = ''flow_full_xml'' \<and>
       doc_keyed (demo_lib doc_one_flow) ([], ''flow.iflw'') c \<and>
       map (\<lambda>c. (chunk_id c, signature c))
         (chunks (process_complete_iflow_package
            ((demo_lib doc_one_flow)\<lparr>embedding_generator := None\<rparr>)
            (demo_fs [''flow.iflw'', ''Validate.gsh''] []))) =
       map (\<lambda>c. (chunk_id c, signature c))
         (chunks (process_complete_iflow_package
            ((demo_lib doc_one_flow)\<lparr>embedding_generator := Some (\<lambda>a b. ''generated'')\<rparr>)
            (demo_fs [''flow.iflw'', ''Validate.gsh''] [])))"
proof -
  let ?L = "demo_lib doc_one_flow"
  let ?fs = "demo_fs [''flow.iflw'', ''Validate.gsh''] []"
  let ?c = "create_full_iflow_chunk ?L ([], ''flow.iflw'') ''<definitions/>''"
  have m: "find_main_iflow (discover_all_files ?fs) = Some ([], ''flow.iflw'')"
    by code_simp
  have r: "read_text ?fs ([], ''flow.iflw'') = Some ''<definitions/>''"
    by code_simp
  have d: "etree_fromstring ?L ''<definitions/>'' = Some doc_one_flow"
    by (simp add: demo_lib_def)
  obtain cs where "chunks (process_complete_iflow_package ?L ?fs) = main_iflow_chunks ?L ?fs @ cs"
    using run_chunks[of ?L ?fs] by blast
  moreover obtain rest where "main_iflow_chunks ?L ?fs = ?c # rest"
    using main_iflow_chunks_parsed[OF m r d] by blast
  ultimately have mem: "?c \<in> set (chunks (process_complete_iflow_package ?L ?fs))"
    by simp
  have cid: "component_id ?c = Some ''full_xml''" "chunk_id ?c = ''flow_full_xml''"
    by (simp_all add: create_full_iflow_chunk_def name_stem_def rfind_dot_def)
  note t = run_ids_and_signatures_deterministic[where L="?L" and ?g1.0=None and fs="?fs"
             and ?g2.0="Some (\<lambda>a b. ''generated'')"]
  have "(\<exists>p. find_main_iflow (discover_all_files ?fs) = Some p \<and> doc_keyed ?L p ?c) \<or>
        (\<exists>f \<in> set (discovered (discover_all_files ?fs)). file_keyed ?L f ?c)"
    using t[THEN conjunct2] mem by blast
  then have "doc_keyed ?L ([], ''flow.iflw'') ?c"
    using m cid(1) by (auto simp: file_keyed_def)
  then show ?thesis
    using mem cid(2) t[THEN conjunct1] by (intro exI[of _ ?c]) simp
qed

end
